theory Spec2Isabelle
  imports Complex_Main "HOL-Library.Sublist" "HOL-Library.Multiset"
begin

text \<open>
  A model of the streaming chat backend: the plain-chat stream segmenter that removes
  \<open><think>\<close> blocks, the bot-chat stream that passes them through, the embedding
  adapter, knowledge retrieval and the chat endpoint that ties them together. The first
  part gives the definitions, each following one function of the source; the second
  part proves their properties.
\<close>

section \<open>Python strings\<close>

text \<open>
  A Python \<open>str\<close> is a sequence of Unicode code points: \<open>len\<close>, slicing, \<open>in\<close>,
  \<open>split\<close> and \<open>strip\<close> all count code points. A string is therefore modelled as a list
  of code points (natural numbers); ASCII literals of the source are written
  \<open>ascii ''...''\<close>, the Chinese literals are given by their code points.
\<close>

type_synonym str = "nat list"

abbreviation ascii :: "string \<Rightarrow> str" where
  "ascii s \<equiv> map of_char s"

text \<open>
  \<open>str.isspace\<close> for one code point: the characters CPython's \<open>str.strip()\<close> removes
  (U+0009..U+000D, U+001C..U+0020, U+0085, U+00A0, U+1680, U+2000..U+200A, U+2028,
  U+2029, U+202F, U+205F, U+3000).
\<close>

definition isspace :: "nat \<Rightarrow> bool" where
  "isspace c \<longleftrightarrow>
     (9 \<le> c \<and> c \<le> 13) \<or> (28 \<le> c \<and> c \<le> 32) \<or> c = 133 \<or> c = 160 \<or> c = 5760 \<or>
     (8192 \<le> c \<and> c \<le> 8202) \<or> c = 8232 \<or> c = 8233 \<or> c = 8239 \<or> c = 8287 \<or> c = 12288"

text \<open>\<open>s.strip()\<close>: leading and trailing whitespace removed.\<close>

definition strip :: "str \<Rightarrow> str" where
  "strip s = rev (dropWhile isspace (rev (dropWhile isspace s)))"

text \<open>\<open>s.find(sub)\<close>: the index of the leftmost occurrence of \<open>sub\<close> in \<open>s\<close>.\<close>

fun find_sub :: "str \<Rightarrow> str \<Rightarrow> nat option" where
  "find_sub sub [] = (if sub = [] then Some 0 else None)"
| "find_sub sub (c # cs) =
     (if prefix sub (c # cs) then Some 0 else map_option Suc (find_sub sub cs))"

text \<open>\<open>sub in s\<close>.\<close>

definition contains :: "str \<Rightarrow> str \<Rightarrow> bool" where
  "contains sub s \<longleftrightarrow> find_sub sub s \<noteq> None"

text \<open>
  \<open>s.split(sep, 1)\<close> for a non-empty separator: the one-element list \<open>[s]\<close> when \<open>sep\<close>
  does not occur, otherwise the text before and the text after its leftmost occurrence.
\<close>

definition split1 :: "str \<Rightarrow> str \<Rightarrow> str list" where
  "split1 sep s =
     (case find_sub sep s of
        None \<Rightarrow> [s]
      | Some i \<Rightarrow> [take i s, drop (i + length sep) s])"

section \<open>The plain-chat stream segmenter (\<open>main.py\<close>, \<open>chat_stream.generate\<close>)\<close>

definition think_open :: str where
  "think_open = ascii ''<think>''"

definition think_close :: str where
  "think_close = ascii ''</think>''"

text \<open>
  Exceptions are values. \<open>BackendError msg\<close> is any exception raised by an external
  collaborator (the chat backend's stream, the embedding backend, the vector store), with
  \<open>str(e) = msg\<close>; \<open>ValueError\<close> is what unpacking
  \<open>before, after = s.split(sep, 1)\<close> raises when the split has one element only.
\<close>

datatype exn = BackendError str | ValueError

fun exn_str :: "exn \<Rightarrow> str" where
  "exn_str (BackendError msg) = msg"
| "exn_str ValueError = ascii ''not enough values to unpack (expected 2, got 1)''"

text \<open>
  The inner \<open>while\<close> loop of one chunk. Its variables are \<open>in_thinking\<close>,
  \<open>current_text\<close> and \<open>parts\<close>; \<open>thinking_buffer\<close> is empty when the loop starts and
  is assigned only in the branch that leaves the loop inside a reasoning block. The
  result is \<open>(in_thinking, current_text, thinking_buffer, parts)\<close> after the loop.
\<close>

function scan :: "bool \<Rightarrow> str \<Rightarrow> str list \<Rightarrow> exn + (bool \<times> str \<times> str \<times> str list)" where
  "scan in_thinking current_text parts =
     (if contains think_open current_text \<or> contains think_close current_text \<or> in_thinking
      then
        if \<not> in_thinking \<and> contains think_open current_text then
          (case split1 think_open current_text of
             [before_think, after_think] \<Rightarrow>
               scan True after_think
                 (if strip before_think \<noteq> [] then parts @ [before_think] else parts)
           | _ \<Rightarrow> Inl ValueError)
        else if in_thinking \<and> contains think_close current_text then
          (case split1 think_close current_text of
             [thinking_content, after_think] \<Rightarrow> scan False after_think parts
           | _ \<Rightarrow> Inl ValueError)
        else if in_thinking then Inr (in_thinking, [], current_text, parts)
        else Inr (in_thinking, current_text, [], parts)
      else Inr (in_thinking, current_text, [], parts))"
  by pat_completeness auto

lemma find_sub_bound: "find_sub sub s = Some i \<Longrightarrow> i + length sub \<le> length s"
proof (induction s arbitrary: i)
  case Nil
  then show ?case by (simp split: if_splits)
next
  case (Cons c cs)
  then show ?case
    by (auto split: if_splits dest: prefix_length_le)
qed

lemma split1_shorter:
  assumes "split1 sep s = [b, a]" and "sep \<noteq> []"
  shows "length a < length s"
proof (cases "find_sub sep s")
  case None
  with assms show ?thesis by (simp add: split1_def)
next
  case (Some i)
  from assms(2) have "0 < length sep" by simp
  with find_sub_bound [OF Some] have "length s - (i + length sep) < length s"
    by arith
  moreover from assms(1) Some have "a = drop (i + length sep) s"
    by (simp add: split1_def)
  ultimately show ?thesis by simp
qed

lemma think_open_eq: "think_open = [60, 116, 104, 105, 110, 107, 62]"
  by (simp add: think_open_def)

lemma think_close_eq: "think_close = [60, 47, 116, 104, 105, 110, 107, 62]"
  by (simp add: think_close_def)

termination scan
proof (relation "measure (\<lambda>(in_thinking, current_text, parts). length current_text)")
  show "wf (measure (\<lambda>(in_thinking, current_text, parts). length current_text))"
    by simp
next
  fix in_thinking :: bool and current_text :: str and parts :: "str list"
    and x21 x22 x31 x32
  assume "split1 think_open current_text = x21 # x22" "x22 = x31 # x32" "x32 = []"
  then have "split1 think_open current_text = [x21, x31]" by simp
  from split1_shorter [OF this] show
    "((True, x31, if strip x21 \<noteq> [] then parts @ [x21] else parts),
      in_thinking, current_text, parts)
     \<in> measure (\<lambda>(in_thinking, current_text, parts). length current_text)"
    by (simp add: think_open_eq)
next
  fix in_thinking :: bool and current_text :: str and parts :: "str list"
    and x21 x22 x31 x32
  assume "split1 think_close current_text = x21 # x22" "x22 = x31 # x32" "x32 = []"
  then have "split1 think_close current_text = [x21, x31]" by simp
  from split1_shorter [OF this] show
    "((False, x31, parts), in_thinking, current_text, parts)
     \<in> measure (\<lambda>(in_thinking, current_text, parts). length current_text)"
    by (simp add: think_close_eq)
qed

text \<open>
  The generator's local variables that live across chunks. \<open>response_content\<close> is
  accumulated by the source although nothing reads it afterwards.
\<close>

record seg_state =
  in_thinking :: bool
  thinking_buffer :: str
  response_content :: str

definition initial_state :: seg_state where
  "initial_state = \<lparr>in_thinking = False, thinking_buffer = [], response_content = []\<rparr>"

text \<open>
  The body of the \<open>async for\<close> loop for one chunk: the new state and the parts that are
  yielded as \<open>{content: part, done: false}\<close> events, in order.
\<close>

definition process_chunk :: "seg_state \<Rightarrow> str \<Rightarrow> exn + (seg_state \<times> str list)" where
  "process_chunk st chunk =
     (let chunk_with_buffer = thinking_buffer st @ chunk in
      case scan (in_thinking st) chunk_with_buffer [] of
        Inl e \<Rightarrow> Inl e
      | Inr (in_thinking', current_text, thinking_buffer', parts) \<Rightarrow>
          let parts' = (if \<not> in_thinking' \<and> current_text \<noteq> []
                        then parts @ [current_text] else parts);
              yielded = filter (\<lambda>part. strip part \<noteq> []) parts'
          in Inr (\<lparr>in_thinking = in_thinking', thinking_buffer = thinking_buffer',
                    response_content = response_content st @ concat yielded\<rparr>,
                  yielded))"

text \<open>
  The \<open>async for\<close> loop over the chunks the backend delivers: all parts yielded, and
  either the exception that left the loop or the state after the last chunk.
\<close>

fun feed :: "seg_state \<Rightarrow> str list \<Rightarrow> str list \<times> (exn + seg_state)" where
  "feed st [] = ([], Inr st)"
| "feed st (chunk # rest) =
     (case process_chunk st chunk of
        Inl e \<Rightarrow> ([], Inl e)
      | Inr (st', yielded) \<Rightarrow>
          (case feed st' rest of (later, r) \<Rightarrow> (yielded @ later, r)))"

text \<open>
  What the chat backend's stream does: it delivers finitely many chunks and then
  either ends (\<open>failure = None\<close>) or raises (\<open>failure = Some e\<close>).
\<close>

record upstream =
  chunks :: "str list"
  failure :: "exn option"

text \<open>
  The events of the response: \<open>Data content done\<close> is \<open>{content, done}\<close>, \<open>Error msg\<close>
  is \<open>{error: msg}\<close>.
\<close>

datatype chat_event = Data str bool | Error str

text \<open>The prefix of the error message: U+751F U+6210 U+54CD U+5E94 U+65F6 U+51FA U+9519, a colon and a space.\<close>

definition error_prefix :: str where
  "error_prefix = [0x751F, 0x6210, 0x54CD, 0x5E94, 0x65F6, 0x51FA, 0x9519, 0x3A, 0x20]"

definition error_event :: "exn \<Rightarrow> chat_event" where
  "error_event e = Error (error_prefix @ exn_str e)"

definition generate :: "upstream \<Rightarrow> chat_event list" where
  "generate up =
     (case feed initial_state (chunks up) of
        (yielded, r) \<Rightarrow>
          map (\<lambda>part. Data part False) yielded @
          (case r of
             Inl e \<Rightarrow> [error_event e]
           | Inr st \<Rightarrow>
               (case failure up of
                  None \<Rightarrow> [Data [] True]
                | Some e \<Rightarrow> [error_event e])))"

text \<open>The visible content of a response: its content fragments, in order.\<close>

fun visible :: "chat_event list \<Rightarrow> str list" where
  "visible [] = []"
| "visible (Data content False # evs) = content # visible evs"
| "visible (ev # evs) = visible evs"

definition is_done :: "chat_event \<Rightarrow> bool" where
  "is_done ev \<longleftrightarrow> (case ev of Data content done \<Rightarrow> done | Error msg \<Rightarrow> False)"

definition is_error :: "chat_event \<Rightarrow> bool" where
  "is_error ev \<longleftrightarrow> (case ev of Data content done \<Rightarrow> False | Error msg \<Rightarrow> True)"

section \<open>The bot-chat stream (\<open>main.py\<close>, \<open>bot_chat.generate\<close>)\<close>

text \<open>
  The generator of \<open>/api/bot-chat\<close> for \<open>stream = true\<close> and a bot whose knowledge
  base is enabled. \<open>BotData content\<close> is the line \<open>data: {"content": content}\<close>,
  \<open>BotDone\<close> is the sentinel line \<open>data: [DONE]\<close>.
\<close>

datatype bot_event = BotData str | BotDone

text \<open>
  The apology sent as content when the stream fails: U+62B1 U+6B49 U+FF0C U+6211 U+6682
  U+65F6 U+65E0 U+6CD5 U+56DE U+7B54 U+60A8 U+7684 U+95EE U+9898 U+FF0C U+8BF7 U+7A0D
  U+540E U+518D U+8BD5 U+3002.
\<close>

definition error_message :: str where
  "error_message =
     [0x62B1, 0x6B49, 0xFF0C, 0x6211, 0x6682, 0x65F6, 0x65E0, 0x6CD5, 0x56DE, 0x7B54, 0x60A8,
      0x7684, 0x95EE, 0x9898, 0xFF0C, 0x8BF7, 0x7A0D, 0x540E, 0x518D, 0x8BD5, 0x3002]"

fun bot_drain :: "str list \<Rightarrow> exn option \<Rightarrow> bot_event list" where
  "bot_drain [] None = [BotDone]"
| "bot_drain [] (Some e) = [BotData error_message, BotDone]"
| "bot_drain (chunk # rest) f =
     (if chunk \<noteq> [] then [BotData chunk] else []) @ bot_drain rest f"

definition bot_generate :: "upstream \<Rightarrow> bot_event list" where
  "bot_generate up = bot_drain (chunks up) (failure up)"

fun bot_contents :: "bot_event list \<Rightarrow> str list" where
  "bot_contents [] = []"
| "bot_contents (BotData content # evs) = content # bot_contents evs"
| "bot_contents (BotDone # evs) = bot_contents evs"

section \<open>The embedding adapter (\<open>ollama_client.py\<close>, \<open>OllamaClient.get_embeddings\<close>)\<close>

text \<open>
  An embedding vector is a list of floats. The adapter never computes with the
  components, it only copies vectors and builds zero vectors, so a component is
  modelled as a real number.
\<close>

type_synonym vector = "real list"

text \<open>
  One HTTP call: \<open>client.post\<close> raises (\<open>Raised\<close>), or it returns a response with a
  status code and a body.
\<close>

datatype 'b http_outcome = Raised | Response int 'b

text \<open>
  The body of an \<open>/api/embed\<close> response. \<open>Malformed\<close>: \<open>response.json()\<close> raises or
  the value has no \<open>get\<close>. \<open>EmbedJson e\<close>: a JSON object, \<open>e\<close> its \<open>embeddings\<close>
  entry (\<open>None\<close> when the key is absent).
\<close>

datatype embed_body = Malformed | EmbedJson "vector list option"

text \<open>The body of an \<open>/api/embeddings\<close> response, with its \<open>embedding\<close> entry.\<close>

datatype legacy_body = LegacyMalformed | LegacyJson "vector option"

text \<open>\<open>texts: Union[str, List[str]]\<close>.\<close>

datatype texts_arg = Single str | Many "str list"

text \<open>\<open>[[0.0] * 768] * n\<close>.\<close>

definition zero_vectors :: "nat \<Rightarrow> vector list" where
  "zero_vectors n = replicate n (replicate 768 0)"

text \<open>
  The \<open>for text in texts\<close> loop of \<open>_get_embeddings_legacy\<close>. \<open>post k text\<close> is the
  outcome of the \<open>k\<close>-th call of the legacy endpoint, made for \<open>text\<close>. The result is
  \<open>None\<close> when an exception leaves the loop.
\<close>

fun legacy_loop ::
  "(nat \<Rightarrow> str \<Rightarrow> legacy_body http_outcome) \<Rightarrow> nat \<Rightarrow> str list \<Rightarrow> vector list \<Rightarrow>
   vector list option" where
  "legacy_loop post k [] embeddings = Some embeddings"
| "legacy_loop post k (t # ts) embeddings =
     (case post k t of
        Raised \<Rightarrow> None
      | Response status_code body \<Rightarrow>
          if status_code \<noteq> 200 then
            legacy_loop post (Suc k) ts (embeddings @ [replicate 768 0])
          else
            (case body of
               LegacyMalformed \<Rightarrow> None
             | LegacyJson (Some embedding) \<Rightarrow>
                 legacy_loop post (Suc k) ts (embeddings @ [embedding])
             | LegacyJson None \<Rightarrow>
                 legacy_loop post (Suc k) ts (embeddings @ [replicate 768 0])))"

definition get_embeddings_legacy ::
  "(nat \<Rightarrow> str \<Rightarrow> legacy_body http_outcome) \<Rightarrow> str list \<Rightarrow> vector list" where
  "get_embeddings_legacy post texts =
     (case legacy_loop post 0 texts [] of
        Some embeddings \<Rightarrow> embeddings
      | None \<Rightarrow> zero_vectors (length texts))"

text \<open>
  \<open>embed_call input_texts\<close> is the outcome of the call of the primary endpoint
  \<open>/api/embed\<close>. Every exception raised inside the \<open>try\<close> block, the one raised for a
  status other than 200 included, leads to the legacy endpoint.
\<close>

definition get_embeddings ::
  "(str list \<Rightarrow> embed_body http_outcome) \<Rightarrow> (nat \<Rightarrow> str \<Rightarrow> legacy_body http_outcome) \<Rightarrow>
   texts_arg \<Rightarrow> vector list" where
  "get_embeddings embed_call post texts =
     (let input_texts = (case texts of Single t \<Rightarrow> [t] | Many ts \<Rightarrow> ts) in
      case embed_call input_texts of
        Raised \<Rightarrow> get_embeddings_legacy post input_texts
      | Response status_code body \<Rightarrow>
          if status_code \<noteq> 200 then get_embeddings_legacy post input_texts
          else
            (case body of
               Malformed \<Rightarrow> get_embeddings_legacy post input_texts
             | EmbedJson e \<Rightarrow>
                 (let embeddings = (case e of None \<Rightarrow> [] | Some es \<Rightarrow> es) in
                  if embeddings = [] then zero_vectors (length input_texts)
                  else embeddings)))"

section \<open>Knowledge retrieval (\<open>knowledge_manager.py\<close>, \<open>KnowledgeManager.search_knowledge\<close>)\<close>

text \<open>
  A Python \<open>Dict[str, str]\<close> is an association list; \<open>d.get(k, dflt)\<close> and the truth
  value of a dictionary (not empty) are as follows.
\<close>

type_synonym dict = "(str \<times> str) list"

definition dict_get :: "dict \<Rightarrow> str \<Rightarrow> str \<Rightarrow> str" where
  "dict_get d k dflt = (case map_of d k of None \<Rightarrow> dflt | Some v \<Rightarrow> v)"

text \<open>
  One result of \<open>VectorStore.search_similar\<close>. \<open>r_metadata\<close> and \<open>r_distance\<close> are read
  with \<open>result.get\<close> and a default, so they may be absent; a distance is a float,
  modelled as a real number.
\<close>

record store_result =
  r_id :: str
  r_content :: str
  r_metadata :: "dict option"
  r_distance :: "real option"

record knowledge_doc =
  doc_id :: str
  doc_title :: str
  doc_content :: str
  doc_category :: str
  doc_tags :: "str list"
  doc_similarity :: real
  doc_distance :: real
  doc_created_at :: "str option"

text \<open>\<open>s.split(",")\<close>, for any one-character separator.\<close>

fun split_char :: "nat \<Rightarrow> str \<Rightarrow> str list" where
  "split_char sep [] = [[]]"
| "split_char sep (c # cs) =
     (if c = sep then [] # split_char sep cs
      else (case split_char sep cs of
              [] \<Rightarrow> [[c]]
            | p # ps \<Rightarrow> (c # p) # ps))"

text \<open>The distance-to-similarity conversion of the loop body.\<close>

definition similarity_of :: "real \<Rightarrow> real" where
  "similarity_of distance =
     (if distance < 0 then max 0 (1 + distance) else max 0 (1 - distance))"

text \<open>The default title: U+65E0 U+6807 U+9898.\<close>

definition untitled :: str where
  "untitled = [0x65E0, 0x6807, 0x9898]"

definition format_result :: "store_result \<Rightarrow> knowledge_doc" where
  "format_result result =
     (let metadata = (case r_metadata result of None \<Rightarrow> [] | Some m \<Rightarrow> m);
          tags_str = dict_get metadata (ascii ''tags'') [];
          tags_list = (if tags_str \<noteq> [] then split_char 44 tags_str else []);
          distance = (case r_distance result of None \<Rightarrow> 1 | Some d \<Rightarrow> d)
      in \<lparr>doc_id = r_id result,
          doc_title = dict_get metadata (ascii ''title'') untitled,
          doc_content = r_content result,
          doc_category = dict_get metadata (ascii ''category'') (ascii ''general''),
          doc_tags = tags_list,
          doc_similarity = similarity_of distance,
          doc_distance = distance,
          doc_created_at = map_of metadata (ascii ''created_at'')\<rparr>)"

text \<open>
  \<open>formatted_results.sort(key=lambda x: x["similarity"], reverse=True)\<close>: Python's sort
  is stable, also with \<open>reverse=True\<close>, so this is the stable sort by descending
  similarity.
\<close>

definition sort_by_similarity :: "knowledge_doc list \<Rightarrow> knowledge_doc list" where
  "sort_by_similarity docs = sort_key (\<lambda>doc. - doc_similarity doc) docs"

text \<open>
  \<open>filter_metadata\<close>: \<open>{"category": category}\<close> when a category is given and not
  empty, otherwise \<open>None\<close>.
\<close>

definition metadata_filter :: "str option \<Rightarrow> dict option" where
  "metadata_filter category =
     (case category of
        None \<Rightarrow> None
      | Some c \<Rightarrow> if c \<noteq> [] then Some [(ascii ''category'', c)] else None)"

text \<open>
  \<open>embed_call\<close> is the call \<open>self.ollama_client.get_embeddings([query])\<close> and
  \<open>store_call\<close> the call \<open>self.vector_store.search_similar(...)\<close>, each raising
  (\<open>Inl\<close>) or returning (\<open>Inr\<close>). Every exception is caught by the \<open>except\<close>
  branch, which returns \<open>[]\<close>.
\<close>

definition search_knowledge ::
  "(str list \<Rightarrow> exn + vector list) \<Rightarrow>
   (vector \<Rightarrow> int \<Rightarrow> dict option \<Rightarrow> exn + store_result list) \<Rightarrow>
   str \<Rightarrow> int \<Rightarrow> str option \<Rightarrow> knowledge_doc list" where
  "search_knowledge embed_call store_call query top_k category =
     (if strip query = [] then []
      else
        (case embed_call [query] of
           Inl e \<Rightarrow> []
         | Inr query_embeddings \<Rightarrow>
             (case query_embeddings of
                [] \<Rightarrow> []
              | query_embedding # _ \<Rightarrow>
                  (case store_call query_embedding top_k (metadata_filter category) of
                     Inl e \<Rightarrow> []
                   | Inr results \<Rightarrow> sort_by_similarity (map format_result results)))))"

section \<open>The chat endpoint (\<open>main.py\<close>, \<open>chat_stream\<close>)\<close>

text \<open>The request model \<open>ChatMessage\<close>.\<close>

record chat_message =
  message :: str
  conversation_id :: "str option"
  history :: "dict list option"
  session_id :: "str option"
  coding_rule :: "dict option"

text \<open>
  The two system prompts are fixed Chinese templates. \<open>CodeReviewPrompt\<close> is the
  code-review template with its six interpolated values (title, description,
  language, category, content, example), \<open>CustomerServicePrompt\<close> the customer-service
  template, which interpolates nothing.
\<close>

datatype system_prompt =
    CodeReviewPrompt str str str str str str
  | CustomerServicePrompt

text \<open>
  The fixed text before and after \<open>message.message\<close> in the user content of the
  code-review mode, the header of the context block (two newlines, the bracketed
  heading U+76F8 U+5173 U+77E5 U+8BC6 U+5E93 U+4FE1 U+606F, a newline) and the bullet
  (U+2022 and a space) that starts the line of a document.
\<close>

definition rule_request_prefix :: str where
  "rule_request_prefix =
     [0x8BF7, 0x6839, 0x636E, 0x5DF2, 0x9009, 0x62E9, 0x7684, 0x7F16, 0x7801, 0x89C4,
      0x5219, 0x6765, 0x5206, 0x6790, 0x548C, 0x6539, 0x8FDB, 0x4EE5, 0x4E0B, 0x4EE3,
      0x7801, 0xFF1A, 0xA, 0xA]"

definition rule_request_suffix :: str where
  "rule_request_suffix =
     [0xA, 0xA, 0x8BF7, 0x63D0, 0x4F9B, 0x8BE6, 0x7EC6, 0x7684, 0x5206, 0x6790, 0x3001,
      0x6539, 0x8FDB, 0x5EFA, 0x8BAE, 0xFF0C, 0x5E76, 0x8F93, 0x51FA, 0x7B26, 0x5408,
      0x7F16, 0x7801, 0x89C4, 0x5219, 0x7684, 0x5B8C, 0x6574, 0x4EE3, 0x7801, 0x3002]"

definition context_header :: str where
  "context_header =
     [0xA, 0xA, 0x5B, 0x76F8, 0x5173, 0x77E5, 0x8BC6, 0x5E93, 0x4FE1, 0x606F, 0x5D, 0xA]"

definition bullet :: str where
  "bullet = [0x2022, 0x20]"

text \<open>\<open>sep.join(xs)\<close>.\<close>

fun join :: "str \<Rightarrow> str list \<Rightarrow> str" where
  "join sep [] = []"
| "join sep [x] = x"
| "join sep (x # y # ys) = x @ sep @ join sep (y # ys)"

text \<open>The line of one retrieved document: its content is cut at 300 code points.\<close>

definition doc_line :: "knowledge_doc \<Rightarrow> str" where
  "doc_line doc =
     (if length (doc_content doc) > 300
      then bullet @ doc_title doc @ ascii '': '' @ take 300 (doc_content doc) @ ascii ''...''
      else bullet @ doc_title doc @ ascii '': '' @ doc_content doc)"

record chat_turn =
  role :: str
  content :: str

text \<open>
  The history forwarded to the backend: of the last ten entries, those whose \<open>role\<close>
  and \<open>content\<close> are both present and not empty.
\<close>

definition history_turns :: "dict list option \<Rightarrow> chat_turn list" where
  "history_turns h =
     (case h of
        None \<Rightarrow> []
      | Some hs \<Rightarrow>
          if hs = [] then []
          else
            map (\<lambda>hist_msg. \<lparr>role = dict_get hist_msg (ascii ''role'') [],
                             content = dict_get hist_msg (ascii ''content'') []\<rparr>)
              (filter (\<lambda>hist_msg. dict_get hist_msg (ascii ''role'') [] \<noteq> [] \<and>
                                   dict_get hist_msg (ascii ''content'') [] \<noteq> [])
                 (drop (length hs - 10) hs)))"

text \<open>
  Retrieval is an effect of the endpoint, so it is modelled with a state: a retriever
  has a state of its own, and a call \<open>await knowledge_manager.search_knowledge(query,
  top_k=k)\<close> takes that state and returns the documents and the new state. Every call
  the endpoint makes goes through the state, so what the retriever has been asked can
  be read from it afterwards.
\<close>

type_synonym 's retriever = "str \<Rightarrow> int \<Rightarrow> 's \<Rightarrow> knowledge_doc list \<times> 's"

text \<open>
  The retriever that answers with \<open>search\<close> and keeps the list of the calls made to
  it: each call appends its own query and \<open>top_k\<close>.
\<close>

definition recording :: "(str \<Rightarrow> int \<Rightarrow> knowledge_doc list) \<Rightarrow> (str \<times> int) list retriever" where
  "recording search query top_k calls = (search query top_k, calls @ [(query, top_k)])"

text \<open>
  The two branches of \<open>if message.coding_rule\<close>. Each gives the system prompt and the
  user content. The first does not touch the retriever; the second calls it and goes on
  with the state the call returns.
\<close>

definition rule_mode :: "dict \<Rightarrow> chat_message \<Rightarrow> system_prompt \<times> str" where
  "rule_mode rule msg =
     (CodeReviewPrompt
        (dict_get rule (ascii ''title'') (ascii ''N/A''))
        (dict_get rule (ascii ''description'') (ascii ''N/A''))
        (dict_get rule (ascii ''language'') (ascii ''N/A''))
        (dict_get rule (ascii ''category'') (ascii ''N/A''))
        (dict_get rule (ascii ''content'') (ascii ''N/A''))
        (dict_get rule (ascii ''example'') (ascii ''N/A'')),
      rule_request_prefix @ message msg @ rule_request_suffix)"

definition knowledge_mode ::
  "'s retriever \<Rightarrow> chat_message \<Rightarrow> 's \<Rightarrow> (system_prompt \<times> str) \<times> 's" where
  "knowledge_mode retrieve msg s =
     (case retrieve (message msg) 3 s of
        (relevant_docs, s') \<Rightarrow>
          (let user_content =
                 (if relevant_docs \<noteq> []
                  then message msg @ context_header @ join [10] (map doc_line relevant_docs)
                  else message msg)
           in ((CustomerServicePrompt, user_content), s')))"

text \<open>
  The request sent to the chat backend and what the endpoint does: \<open>request\<close> is what
  the backend receives and \<open>events\<close> the streamed response, \<open>backend\<close> giving the stream
  the chat backend answers a request with. The endpoint returns this outcome and the
  state of the retriever. A dictionary is true when it is not empty, so an absent rule
  and the empty rule \<open>{}\<close> both take the \<open>else\<close> branch.
\<close>

record backend_request =
  req_messages :: "chat_turn list"
  req_system :: system_prompt
  req_keep_alive :: str

record chat_outcome =
  request :: backend_request
  events :: "chat_event list"

definition chat_stream ::
  "'s retriever \<Rightarrow> (backend_request \<Rightarrow> upstream) \<Rightarrow> chat_message \<Rightarrow> 's \<Rightarrow> chat_outcome \<times> 's" where
  "chat_stream retrieve backend msg s =
     (case (case coding_rule msg of
              None \<Rightarrow> knowledge_mode retrieve msg s
            | Some rule \<Rightarrow>
                if rule \<noteq> [] then (rule_mode rule msg, s) else knowledge_mode retrieve msg s) of
        ((system_prompt, user_content), s') \<Rightarrow>
          (let messages = history_turns (history msg) @
                          [\<lparr>role = ascii ''user'', content = user_content\<rparr>];
               req = \<lparr>req_messages = messages, req_system = system_prompt,
                      req_keep_alive = ascii ''10m''\<rparr>
           in (\<lparr>request = req, events = generate (backend req)\<rparr>, s')))"

section \<open>Properties of the string functions\<close>

lemma contains_split1:
  "contains sep s \<Longrightarrow> \<exists>b a. split1 sep s = [b, a]"
  by (auto simp: contains_def split1_def)

lemma strip_eq_Nil: "strip s = [] \<longleftrightarrow> list_all isspace s"
proof
  assume "strip s = []"
  then have all: "\<forall>x\<in>set (dropWhile isspace s). isspace x"
    by (simp add: strip_def)
  have "dropWhile isspace s = []"
  proof (rule ccontr)
    assume ne: "dropWhile isspace s \<noteq> []"
    then have "\<not> isspace (hd (dropWhile isspace s))" by (rule hd_dropWhile)
    moreover from ne have "hd (dropWhile isspace s) \<in> set (dropWhile isspace s)" by simp
    ultimately show False using all by blast
  qed
  then show "list_all isspace s"
    by (simp add: list_all_iff)
next
  assume "list_all isspace s"
  then have "dropWhile isspace s = []"
    by (simp add: list_all_iff)
  then show "strip s = []" by (simp add: strip_def del: dropWhile_eq_Nil_conv)
qed

lemma contains_iff_sublist: "contains sub s \<longleftrightarrow> sublist sub s"
proof (induction s)
  case Nil
  show ?case by (simp add: contains_def)
next
  case (Cons c cs)
  show ?case
  proof (cases "prefix sub (c # cs)")
    case True
    then show ?thesis by (simp add: contains_def)
  next
    case False
    then have "contains sub (c # cs) \<longleftrightarrow> contains sub cs"
      by (simp add: contains_def)
    also have "\<dots> \<longleftrightarrow> sublist sub cs" by (rule Cons.IH)
    also have "\<dots> \<longleftrightarrow> sublist sub (c # cs)"
      using False by (simp add: sublist_Cons_right)
    finally show ?thesis .
  qed
qed

lemma prefix_no_overlap:
  assumes "prefix (x # xs) (A @ (x # xs) @ B)" and "\<not> prefix (x # xs) A" and "x \<notin> set xs"
  shows "A = []"
proof (rule ccontr)
  assume ne: "A \<noteq> []"
  from assms(1) have "prefix (x # xs) A \<or> (\<exists>us. x # xs = A @ us \<and> prefix us ((x # xs) @ B))"
    by (simp only: prefix_append)
  with assms(2) obtain us where us: "x # xs = A @ us" "prefix us ((x # xs) @ B)"
    by blast
  from ne us(1) obtain A' where A': "A = x # A'" "xs = A' @ us"
    by (cases A) auto
  from assms(2) us(1) have "us \<noteq> []" by auto
  then obtain u us' where u: "us = u # us'" by (cases us) auto
  with us(2) have "u = x" by simp
  with A'(2) u assms(3) show False by simp
qed

lemma find_sub_first:
  assumes "\<not> contains (x # xs) A" and "x \<notin> set xs"
  shows "find_sub (x # xs) (A @ (x # xs) @ B) = Some (length A)"
  using assms(1)
proof (induction A)
  case Nil
  show ?case by simp
next
  case (Cons a A)
  from Cons.prems have np: "\<not> prefix (x # xs) (a # A)" and nc: "\<not> contains (x # xs) A"
    by (auto simp: contains_def split: if_splits)
  have "\<not> prefix (x # xs) ((a # A) @ (x # xs) @ B)"
    using prefix_no_overlap [OF _ np assms(2)] by blast
  with Cons.IH [OF nc] show ?case by simp
qed

lemma split1_first:
  assumes "\<not> contains (x # xs) A" and "x \<notin> set xs"
  shows "split1 (x # xs) (A @ (x # xs) @ B) = [A, B]"
  using find_sub_first [OF assms, of B] by (simp add: split1_def)

section \<open>Properties of the plain-chat segmenter\<close>

declare scan.simps [simp del]

text \<open>
  The \<open>while\<close> loop never raises: where the source unpacks a split into two names, the
  marker is in the text.
\<close>

lemma scan_returns: "\<exists>r. scan b s ps = Inr r"
proof (induction b s ps rule: scan.induct)
  case (1 in_thinking current_text parts)
  show ?case
  proof (cases "\<not> in_thinking \<and> contains think_open current_text")
    case True
    then obtain b a where s: "split1 think_open current_text = [b, a]"
      using contains_split1 by blast
    from "1.IH"(1) [of b "[a]" a "[]"] True s
    have "\<exists>r. scan True a (if strip b \<noteq> [] then parts @ [b] else parts) = Inr r"
      by simp
    with True s show ?thesis
      by (subst scan.simps) simp
  next
    case outside: False
    show ?thesis
    proof (cases "in_thinking \<and> contains think_close current_text")
      case True
      then obtain b a where s: "split1 think_close current_text = [b, a]"
        using contains_split1 by blast
      from "1.IH"(2) [of b "[a]" a "[]"] True s outside
      have "\<exists>r. scan False a parts = Inr r"
        by simp
      with True s outside show ?thesis
        by (subst scan.simps) simp
    next
      case False
      with outside show ?thesis
        by (subst scan.simps) auto
    qed
  qed
qed

lemma process_chunk_returns: "\<exists>st' ys. process_chunk st chunk = Inr (st', ys)"
proof -
  obtain r where "scan (in_thinking st) (thinking_buffer st @ chunk) [] = Inr r"
    using scan_returns by blast
  then show ?thesis
    by (cases r) (simp add: process_chunk_def Let_def)
qed

lemma feed_returns: "\<exists>ys st'. feed st cs = (ys, Inr st')"
proof (induction cs arbitrary: st)
  case Nil
  show ?case by simp
next
  case (Cons chunk rest)
  obtain st1 ys1 where p: "process_chunk st chunk = Inr (st1, ys1)"
    using process_chunk_returns by blast
  obtain ys2 st2 where "feed st1 rest = (ys2, Inr st2)"
    using Cons.IH by blast
  with p show ?case by simp
qed

lemma process_chunk_nonblank:
  "process_chunk st chunk = Inr (st', ys) \<Longrightarrow> y \<in> set ys \<Longrightarrow> strip y \<noteq> []"
  by (auto simp: process_chunk_def Let_def split: sum.splits prod.splits)

lemma feed_nonblank:
  "feed st cs = (ys, r) \<Longrightarrow> y \<in> set ys \<Longrightarrow> strip y \<noteq> []"
proof (induction cs arbitrary: st ys)
  case Nil
  then show ?case by simp
next
  case (Cons chunk rest)
  obtain st1 ys1 where p: "process_chunk st chunk = Inr (st1, ys1)"
    using process_chunk_returns by blast
  obtain ys2 r2 where f: "feed st1 rest = (ys2, r2)"
    by (cases "feed st1 rest")
  from Cons.prems(1) p f have "ys = ys1 @ ys2" and "r2 = r" by simp_all
  with Cons.prems(2) have "y \<in> set ys1 \<or> y \<in> set ys2" by simp
  then show ?case
  proof
    assume "y \<in> set ys1"
    with p show ?thesis by (rule process_chunk_nonblank)
  next
    assume "y \<in> set ys2"
    with f \<open>r2 = r\<close> show ?thesis using Cons.IH by blast
  qed
qed

text \<open>Outside a reasoning block, a text without the opening marker leaves the loop as it is.\<close>

lemma scan_outside_plain:
  "\<not> contains think_open s \<Longrightarrow> scan False s ps = Inr (False, s, [], ps)"
  by (subst scan.simps) simp

lemma process_chunk_outside_plain:
  assumes "\<not> in_thinking st" and "thinking_buffer st = []" and "\<not> contains think_open chunk"
  shows "process_chunk st chunk =
           Inr (st\<lparr>response_content := response_content st @ (if strip chunk \<noteq> [] then chunk else [])\<rparr>,
                if strip chunk \<noteq> [] then [chunk] else [])"
  using assms by (cases "chunk = []") (simp_all add: process_chunk_def scan_outside_plain strip_def)

lemma feed_plain:
  assumes "\<not> in_thinking st" and "thinking_buffer st = []"
    and "\<forall>chunk\<in>set cs. \<not> contains think_open chunk"
  shows "feed st cs =
           (filter (\<lambda>chunk. strip chunk \<noteq> []) cs,
            Inr (st\<lparr>response_content :=
                       response_content st @ concat (filter (\<lambda>chunk. strip chunk \<noteq> []) cs)\<rparr>))"
  using assms
proof (induction cs arbitrary: st)
  case Nil
  then show ?case by simp
next
  case (Cons chunk rest)
  let ?st1 = "st\<lparr>response_content :=
                    response_content st @ (if strip chunk \<noteq> [] then chunk else [])\<rparr>"
  from Cons.prems have p: "process_chunk st chunk =
      Inr (?st1, if strip chunk \<noteq> [] then [chunk] else [])"
    by (simp add: process_chunk_outside_plain)
  from Cons.prems have "\<not> in_thinking ?st1" "thinking_buffer ?st1 = []"
    "\<forall>chunk\<in>set rest. \<not> contains think_open chunk"
    by simp_all
  from Cons.IH [OF this] p show ?case by simp
qed

lemma visible_contents: "visible (map (\<lambda>part. Data part False) ps @ evs) = ps @ visible evs"
  by (induction ps) simp_all

lemma generate_shape:
  "generate up =
     map (\<lambda>part. Data part False) (fst (feed initial_state (chunks up))) @
     [case failure up of None \<Rightarrow> Data [] True | Some e \<Rightarrow> error_event e]"
proof -
  obtain ys st where "feed initial_state (chunks up) = (ys, Inr st)"
    using feed_returns by blast
  then show ?thesis
    by (simp add: generate_def split: option.splits)
qed

lemma filter_done_contents [simp]: "filter is_done (map (\<lambda>part. Data part False) ps) = []"
  by (induction ps) (simp_all add: is_done_def)

lemma filter_error_contents [simp]: "filter is_error (map (\<lambda>part. Data part False) ps) = []"
  by (induction ps) (simp_all add: is_error_def)

lemma contains_open_single: "\<not> contains think_open [c]"
  by (simp add: contains_def think_open_eq)

lemma strip_single: "strip [c] \<noteq> [] \<longleftrightarrow> \<not> isspace c"
  by (simp add: strip_eq_Nil)

lemma filter_singletons:
  "filter (\<lambda>chunk. strip chunk \<noteq> []) (map (\<lambda>c. [c]) raw) = map (\<lambda>c. [c]) (filter (\<lambda>c. \<not> isspace c) raw)"
  by (induction raw) (simp_all add: strip_single)

lemma concat_singletons: "concat (map (\<lambda>c. [c]) xs) = xs"
  by (induction xs) simp_all

lemma one_char_chunks:
  "feed initial_state (map (\<lambda>c. [c]) raw) =
     (map (\<lambda>c. [c]) (filter (\<lambda>c. \<not> isspace c) raw),
      Inr \<lparr>in_thinking = False, thinking_buffer = [],
           response_content = filter (\<lambda>c. \<not> isspace c) raw\<rparr>)"
  using feed_plain [of initial_state "map (\<lambda>c. [c]) raw"]
  by (simp add: initial_state_def contains_open_single filter_singletons concat_singletons)

text \<open>Outside a reasoning block the pending buffer is empty.\<close>

lemma scan_outside_buffer:
  "scan b s ps = Inr (b', t, buf, qs) \<Longrightarrow> \<not> b' \<Longrightarrow> buf = []"
proof (induction b s ps rule: scan.induct)
  case (1 in_thinking current_text parts)
  show ?case
  proof (cases "\<not> in_thinking \<and> contains think_open current_text")
    case True
    then obtain x y where s: "split1 think_open current_text = [x, y]"
      using contains_split1 by blast
    from "1.prems"(1) True s
    have "scan True y (if strip x \<noteq> [] then parts @ [x] else parts) = Inr (b', t, buf, qs)"
      by (subst (asm) scan.simps) simp
    from "1.IH"(1) [of x "[y]" y "[]", OF _ _ s _ _ this] True "1.prems"(2)
    show ?thesis by simp
  next
    case outside: False
    show ?thesis
    proof (cases "in_thinking \<and> contains think_close current_text")
      case True
      then obtain x y where s: "split1 think_close current_text = [x, y]"
        using contains_split1 by blast
      from "1.prems"(1) True s outside
      have "scan False y parts = Inr (b', t, buf, qs)"
        by (subst (asm) scan.simps) simp
      from "1.IH"(2) [of x "[y]" y "[]", OF _ _ _ s _ _ this] True outside "1.prems"(2)
      show ?thesis by simp
    next
      case False
      with outside "1.prems" show ?thesis
        by (subst (asm) scan.simps) (auto split: if_splits)
    qed
  qed
qed

lemma process_chunk_outside_buffer:
  "process_chunk st chunk = Inr (st', ys) \<Longrightarrow> \<not> in_thinking st' \<Longrightarrow> thinking_buffer st' = []"
  by (auto simp: process_chunk_def Let_def split: sum.splits prod.splits dest: scan_outside_buffer)

lemma feed_outside_buffer:
  "feed st cs = (ys, Inr st') \<Longrightarrow> (\<not> in_thinking st \<Longrightarrow> thinking_buffer st = []) \<Longrightarrow>
   \<not> in_thinking st' \<Longrightarrow> thinking_buffer st' = []"
proof (induction cs arbitrary: st ys)
  case Nil
  then show ?case by simp
next
  case (Cons chunk rest)
  obtain st1 ys1 where p: "process_chunk st chunk = Inr (st1, ys1)"
    using process_chunk_returns by blast
  obtain ys2 r2 where f: "feed st1 rest = (ys2, r2)"
    by (cases "feed st1 rest")
  from Cons.prems(1) p f have "r2 = Inr st'" by simp
  with f have "feed st1 rest = (ys2, Inr st')" by simp
  from Cons.IH [OF this process_chunk_outside_buffer [OF p] Cons.prems(3)]
  show ?case by simp
qed

text \<open>The first opening marker of a text, and a block that is never closed.\<close>

lemma split1_open_first:
  "\<not> contains think_open A \<Longrightarrow> split1 think_open (A @ think_open @ B) = [A, B]"
  unfolding think_open_eq by (rule split1_first) simp_all

lemma contains_open_first: "contains think_open (A @ think_open @ B)"
  by (simp add: contains_iff_sublist)

lemma scan_inside_open:
  "\<not> contains think_close s \<Longrightarrow> scan True s ps = Inr (True, [], s, ps)"
  by (subst scan.simps) simp

lemma scan_unterminated:
  assumes "\<not> contains think_open A" and "\<not> contains think_close B"
  shows "scan False (A @ think_open @ B) ps =
           Inr (True, [], B, if strip A \<noteq> [] then ps @ [A] else ps)"
  using assms
  by (subst scan.simps) (simp add: contains_open_first split1_open_first scan_inside_open)

lemma contains_append_left: "contains sub s \<Longrightarrow> contains sub (s @ t)"
  by (simp add: contains_iff_sublist sublist_append)

lemma scan_inside_buffering:
  "\<not> contains think_close (buf @ chunk) \<Longrightarrow>
   process_chunk \<lparr>in_thinking = True, thinking_buffer = buf, response_content = rc\<rparr> chunk =
     Inr (\<lparr>in_thinking = True, thinking_buffer = buf @ chunk, response_content = rc\<rparr>, [])"
  by (simp add: process_chunk_def scan_inside_open)

lemma feed_inside:
  "\<not> contains think_close (buf @ concat cs) \<Longrightarrow>
   feed \<lparr>in_thinking = True, thinking_buffer = buf, response_content = rc\<rparr> cs =
     ([], Inr \<lparr>in_thinking = True, thinking_buffer = buf @ concat cs, response_content = rc\<rparr>)"
proof (induction cs arbitrary: buf)
  case Nil
  then show ?case by simp
next
  case (Cons chunk rest)
  from Cons.prems have "\<not> contains think_close ((buf @ chunk) @ concat rest)" by simp
  then have nc: "\<not> contains think_close (buf @ chunk)"
    using contains_append_left by blast
  from Cons.IH [of "buf @ chunk"] Cons.prems
  have "feed \<lparr>in_thinking = True, thinking_buffer = buf @ chunk, response_content = rc\<rparr> rest =
      ([], Inr \<lparr>in_thinking = True, thinking_buffer = (buf @ chunk) @ concat rest,
                 response_content = rc\<rparr>)"
    by simp
  with scan_inside_buffering [OF nc, of rc] show ?case by simp
qed

lemma split1_close_first:
  "\<not> contains think_close B \<Longrightarrow> split1 think_close (B @ think_close @ C) = [B, C]"
  unfolding think_close_eq by (rule split1_first) simp_all

lemma contains_close_first: "contains think_close (B @ think_close @ C)"
  by (simp add: contains_iff_sublist)

lemma scan_block:
  assumes "\<not> contains think_open A" and "\<not> contains think_close B" and "\<not> contains think_open C"
  shows "scan False (A @ think_open @ B @ think_close @ C) ps =
           Inr (False, C, [], if strip A \<noteq> [] then ps @ [A] else ps)"
proof -
  have inside: "scan True (B @ think_close @ C) qs = Inr (False, C, [], qs)" for qs
    using assms(2,3)
    by (subst scan.simps)
      (simp add: contains_close_first split1_close_first scan_outside_plain)
  from assms(1) show ?thesis
    by (subst scan.simps)
      (simp add: contains_open_first split1_open_first inside)
qed

lemma feed_eval_1:
  "feed initial_state [ascii ''a'', ascii '' '', ascii ''b''] =
     ([ascii ''a'', ascii ''b''],
      Inr \<lparr>in_thinking = False, thinking_buffer = [], response_content = ascii ''ab''\<rparr>)"
  by (simp add: feed_plain initial_state_def contains_def think_open_eq strip_eq_Nil isspace_def
      del: feed.simps)

subsection \<open>Claim C1: the terminal event\<close>

text \<open>
  Claim C1 says that the generator of \<open>/api/chat\<close> ends every response with exactly one
  \<open>done = true\<close> event, also when the backend's stream raises, in which case one error
  event comes first. The code does this in part. When the stream ends normally the
  response is its content fragments followed by exactly one \<open>done = true\<close> event, the
  last event, and it has no error event. When the stream raises \<open>e\<close>, the \<open>except\<close>
  branch yields exactly one error event, whose message is the fixed prefix followed by
  \<open>str(e)\<close>; that event is the last one and the response has no \<open>done = true\<close> event.
\<close>

theorem generate_terminal_event:
  "(failure up = None \<longrightarrow>
      filter is_done (generate up) = [Data [] True] \<and>
      last (generate up) = Data [] True \<and>
      filter is_error (generate up) = []) \<and>
   (\<forall>e. failure up = Some e \<longrightarrow>
      filter is_error (generate up) = [Error (error_prefix @ exn_str e)] \<and>
      last (generate up) = Error (error_prefix @ exn_str e) \<and>
      filter is_done (generate up) = [])"
  by (simp add: generate_shape is_done_def is_error_def error_event_def)

theorem generate_terminal_event_witness:
  "filter is_done (generate \<lparr>chunks = [ascii ''partial''], failure = None\<rparr>) = [Data [] True] \<and>
   last (generate \<lparr>chunks = [ascii ''partial''], failure = None\<rparr>) = Data [] True \<and>
   filter is_error
     (generate \<lparr>chunks = [ascii ''partial''], failure = Some (BackendError (ascii ''boom''))\<rparr>) =
     [Error (error_prefix @ ascii ''boom'')] \<and>
   filter is_done
     (generate \<lparr>chunks = [ascii ''partial''], failure = Some (BackendError (ascii ''boom''))\<rparr>) = []"
  using generate_terminal_event [of "\<lparr>chunks = [ascii ''partial''], failure = None\<rparr>"]
    generate_terminal_event
      [of "\<lparr>chunks = [ascii ''partial''], failure = Some (BackendError (ascii ''boom''))\<rparr>"]
  by simp

text \<open>
  The claim as stated fails when the stream raises after the chunk \<open>partial\<close>: the
  response is the fragment and the error event, and no \<open>done = true\<close> event follows.
\<close>

theorem generate_error_no_done:
  "generate \<lparr>chunks = [ascii ''partial''], failure = Some (BackendError (ascii ''boom''))\<rparr> =
     [Data (ascii ''partial'') False, Error (error_prefix @ ascii ''boom'')] \<and>
   filter is_done
     (generate \<lparr>chunks = [ascii ''partial''], failure = Some (BackendError (ascii ''boom''))\<rparr>) = []"
  by (simp add: generate_shape feed_plain initial_state_def contains_def think_open_eq
      strip_eq_Nil isspace_def error_event_def is_done_def del: feed.simps)

subsection \<open>Claim C9: every content fragment is non-blank\<close>

text \<open>
  Claim C9: every content fragment the plain-chat generator emits, that is every
  \<open>{content, done: false}\<close> event, has at least one character that is not whitespace;
  parts that are blank are never forwarded.
\<close>

theorem generate_content_nonblank:
  assumes "Data fragment False \<in> set (generate up)"
  shows "strip fragment \<noteq> [] \<and> (\<exists>c\<in>set fragment. \<not> isspace c)"
proof -
  from assms have "fragment \<in> set (fst (feed initial_state (chunks up)))"
    by (auto simp: generate_shape error_event_def split: option.splits)
  then have "strip fragment \<noteq> []"
    using feed_nonblank [of initial_state "chunks up"] by (cases "feed initial_state (chunks up)") auto
  then show ?thesis
    by (auto simp: strip_eq_Nil list_all_iff)
qed

theorem generate_content_nonblank_witness:
  "Data (ascii ''a'') False
     \<in> set (generate \<lparr>chunks = [ascii ''a'', ascii '' '', ascii ''b''], failure = None\<rparr>) \<and>
   strip (ascii ''a'') \<noteq> [] \<and>
   Data (ascii '' '') False
     \<notin> set (generate \<lparr>chunks = [ascii ''a'', ascii '' '', ascii ''b''], failure = None\<rparr>)"
proof -
  have g: "generate \<lparr>chunks = [ascii ''a'', ascii '' '', ascii ''b''], failure = None\<rparr> =
      [Data (ascii ''a'') False, Data (ascii ''b'') False, Data [] True]"
    using feed_eval_1 by (simp add: generate_shape del: feed.simps)
  then have "Data (ascii ''a'') False
     \<in> set (generate \<lparr>chunks = [ascii ''a'', ascii '' '', ascii ''b''], failure = None\<rparr>)"
    by simp
  from this generate_content_nonblank [OF this] g show ?thesis by simp
qed

text \<open>A stream without a marker has no chunk with that marker.\<close>

lemma no_marker_in_chunks:
  "\<not> contains sub (concat cs) \<Longrightarrow> \<forall>chunk\<in>set cs. \<not> contains sub chunk"
proof (induction cs)
  case Nil
  show ?case by simp
next
  case (Cons c cs)
  from Cons.prems have "\<not> contains sub c" and "\<not> contains sub (concat cs)"
    by (auto simp: contains_iff_sublist sublist_append)
  with Cons.IH show ?case by simp
qed

subsection \<open>Claim C3: content outside reasoning blocks\<close>

text \<open>
  Claim C3 says that for a chunk sequence without a marker, whitespace-only chunks
  included, the visible fragments concatenate to the concatenation of all chunks. The
  generator forwards a part only if it is not blank, so this holds as follows: when
  the stream contains no marker, the visible fragments are exactly the chunks that are
  not blank, in order (a blank chunk is dropped); in particular, when no chunk is
  blank the concatenation of the visible fragments is the concatenation of the chunks.
  A stream without a marker has no chunk with the opening marker
  (\<open>no_marker_in_chunks\<close>), which is the hypothesis the theorem needs.
\<close>

theorem plain_chunks_visible:
  assumes "\<forall>chunk\<in>set cs. \<not> contains think_open chunk"
  shows "visible (generate \<lparr>chunks = cs, failure = None\<rparr>) =
           filter (\<lambda>chunk. strip chunk \<noteq> []) cs \<and>
         ((\<forall>chunk\<in>set cs. strip chunk \<noteq> []) \<longrightarrow>
            concat (visible (generate \<lparr>chunks = cs, failure = None\<rparr>)) = concat cs)"
proof -
  have v: "visible (generate \<lparr>chunks = cs, failure = None\<rparr>) =
      filter (\<lambda>chunk. strip chunk \<noteq> []) cs"
    using feed_plain [of initial_state cs] assms
    by (simp add: generate_shape visible_contents initial_state_def)
  have "(\<forall>chunk\<in>set cs. strip chunk \<noteq> []) \<longrightarrow> filter (\<lambda>chunk. strip chunk \<noteq> []) cs = cs"
    by (simp add: filter_id_conv)
  with v show ?thesis by simp
qed

theorem plain_chunks_visible_witness:
  "visible (generate \<lparr>chunks = [ascii ''a'', ascii '' '', ascii ''b''], failure = None\<rparr>) =
     [ascii ''a'', ascii ''b''] \<and>
   concat (visible (generate \<lparr>chunks = [ascii ''a'', ascii ''b''], failure = None\<rparr>)) =
     ascii ''ab''"
proof -
  have "\<forall>chunk\<in>set [ascii ''a'', ascii '' '', ascii ''b'']. \<not> contains think_open chunk"
    by (simp add: contains_def think_open_eq)
  from plain_chunks_visible [OF this]
  have one: "visible (generate \<lparr>chunks = [ascii ''a'', ascii '' '', ascii ''b''], failure = None\<rparr>) =
      [ascii ''a'', ascii ''b'']"
    by (simp add: strip_eq_Nil isspace_def)
  have "\<forall>chunk\<in>set [ascii ''a'', ascii ''b'']. \<not> contains think_open chunk"
    by (simp add: contains_def think_open_eq)
  from plain_chunks_visible [OF this]
  have "concat (visible (generate \<lparr>chunks = [ascii ''a'', ascii ''b''], failure = None\<rparr>)) =
      ascii ''ab''"
    by (simp add: strip_eq_Nil isspace_def)
  with one show ?thesis by simp
qed

text \<open>
  The claim as stated fails for the chunks \<open>a\<close>, a space and \<open>b\<close>: the stream is
  \<open>a b\<close>, without any marker, and the visible content is \<open>ab\<close>.
\<close>

theorem blank_chunk_dropped:
  "\<not> contains think_open (concat [ascii ''a'', ascii '' '', ascii ''b'']) \<and>
   \<not> contains think_close (concat [ascii ''a'', ascii '' '', ascii ''b'']) \<and>
   concat [ascii ''a'', ascii '' '', ascii ''b''] = ascii ''a b'' \<and>
   concat (visible (generate \<lparr>chunks = [ascii ''a'', ascii '' '', ascii ''b''], failure = None\<rparr>)) =
     ascii ''ab''"
  using feed_eval_1
  by (simp add: generate_shape visible_contents contains_def think_open_eq think_close_eq
      del: feed.simps)

subsection \<open>Claim C2: chunks that split the opening marker\<close>

text \<open>
  Claim C2 says that feeding a text one character per chunk gives the same visible
  output and final state as feeding it as one chunk, a partial opening marker being
  held in the pending buffer. The generator prepends \<open>thinking_buffer\<close> to every chunk
  in order to find markers across chunks, and a closing marker that is split between
  chunks is found that way, but the buffer is written only inside a reasoning block,
  so an opening marker that is split between chunks is never found. The code therefore
  breaks the claim. For the text \<open><think>\<close> itself, one character per chunk emits its
  seven characters and ends outside a block, while the whole text as one chunk emits
  nothing and ends inside a block. For the text \<open><think>B</think>C\<close>, one character per
  chunk emits the whole text, markers and reasoning included, while one chunk emits
  \<open>C\<close> only.
\<close>

theorem split_marker_not_invariant:
  "contains think_open think_open \<and>
   feed initial_state (map (\<lambda>c. [c]) think_open) =
     ([[60], [116], [104], [105], [110], [107], [62]],
      Inr \<lparr>in_thinking = False, thinking_buffer = [], response_content = think_open\<rparr>) \<and>
   feed initial_state [think_open] =
     ([], Inr \<lparr>in_thinking = True, thinking_buffer = [], response_content = []\<rparr>) \<and>
   concat (fst (feed initial_state (map (\<lambda>c. [c]) (ascii ''<think>B</think>C'')))) =
     ascii ''<think>B</think>C'' \<and>
   feed initial_state [ascii ''<think>B</think>C''] =
     ([ascii ''C''],
      Inr \<lparr>in_thinking = False, thinking_buffer = [], response_content = ascii ''C''\<rparr>)"
proof -
  have "scan False think_open [] = Inr (True, [], [], [])"
    using scan_unterminated [of "[]" "[]" "[]"]
    by (simp add: contains_def strip_def think_open_eq think_close_eq)
  then have "feed initial_state [think_open] =
     ([], Inr \<lparr>in_thinking = True, thinking_buffer = [], response_content = []\<rparr>)"
    by (simp add: initial_state_def process_chunk_def)
  moreover have "feed initial_state (map (\<lambda>c. [c]) think_open) =
     ([[60], [116], [104], [105], [110], [107], [62]],
      Inr \<lparr>in_thinking = False, thinking_buffer = [], response_content = think_open\<rparr>)"
    by (simp add: one_char_chunks) (simp add: think_open_eq isspace_def)
  moreover have "contains think_open think_open"
    by (simp add: contains_def think_open_eq)
  moreover have "concat (fst (feed initial_state (map (\<lambda>c. [c]) (ascii ''<think>B</think>C'')))) =
     ascii ''<think>B</think>C''"
    by (simp only: one_char_chunks fst_conv concat_singletons) (simp add: isspace_def)
  moreover have "feed initial_state [ascii ''<think>B</think>C''] =
     ([ascii ''C''],
      Inr \<lparr>in_thinking = False, thinking_buffer = [], response_content = ascii ''C''\<rparr>)"
  proof -
    have "scan False ([] @ think_open @ ascii ''B'' @ think_close @ ascii ''C'') [] =
        Inr (False, ascii ''C'', [], [])"
      by (subst scan_block) (simp_all add: contains_def think_open_eq think_close_eq strip_def)
    then have "scan False (ascii ''<think>B</think>C'') [] = Inr (False, ascii ''C'', [], [])"
      by (simp add: think_open_eq think_close_eq)
    then show ?thesis
      by (simp add: initial_state_def process_chunk_def strip_eq_Nil isspace_def)
  qed
  ultimately show ?thesis by simp
qed

subsection \<open>Claim C6: a reasoning block that is never closed\<close>

text \<open>
  Claim C6: on the stream \<open>A\<close>, \<open><think>\<close>, \<open>B\<close> that ends without a closing marker,
  exactly \<open>A\<close> is emitted as visible content, \<open>B\<close> is discarded and the terminal
  \<open>done = true\<close> event is still emitted. The claim does not say how the stream is cut
  into chunks. The code does what it says when the opening marker arrives within one
  chunk (see the further properties below), but not when the marker is split between
  two chunks, the defect of claim C2: delivered as \<open>A<th\<close> and \<open>ink>B\<close>, both chunks
  are emitted, \<open>B\<close> included, before the \<open>done = true\<close> event.
\<close>

theorem unterminated_block_split_opening:
  "concat [ascii ''A<th'', ascii ''ink>B''] = ascii ''A'' @ think_open @ ascii ''B'' \<and>
   generate \<lparr>chunks = [ascii ''A<th'', ascii ''ink>B''], failure = None\<rparr> =
     [Data (ascii ''A<th'') False, Data (ascii ''ink>B'') False, Data [] True]"
proof -
  have "feed initial_state [ascii ''A<th'', ascii ''ink>B''] =
      ([ascii ''A<th'', ascii ''ink>B''],
       Inr \<lparr>in_thinking = False, thinking_buffer = [], response_content = ascii ''A<think>B''\<rparr>)"
    by (simp add: feed_plain initial_state_def contains_def think_open_eq strip_eq_Nil
        isspace_def del: feed.simps)
  then show ?thesis
    by (simp add: generate_shape think_open_eq del: feed.simps)
qed

subsection \<open>Further properties of the segmenter\<close>

text \<open>
  A reasoning block that is never closed, when its opening marker is not split: for
  every \<open>A\<close> that is not blank and has no opening marker and every \<open>B\<close> without a
  closing marker, exactly \<open>A\<close> is emitted and then the \<open>done = true\<close> event, both when
  \<open>A\<close> and the marker arrive as chunks of their own, followed by \<open>B\<close> in any number of
  chunks, and when the whole stream arrives as one chunk.
\<close>

theorem unterminated_block:
  assumes "strip A \<noteq> []" and "\<not> contains think_open A"
    and "\<not> contains think_close (concat Bs)"
  shows "generate \<lparr>chunks = A # think_open # Bs, failure = None\<rparr> =
           [Data A False, Data [] True] \<and>
         generate \<lparr>chunks = [A @ think_open @ concat Bs], failure = None\<rparr> =
           [Data A False, Data [] True]"
proof
  have open_only: "scan False think_open [] = Inr (True, [], [], [])"
    using scan_unterminated [of "[]" "[]" "[]"]
    by (simp add: contains_def strip_def think_open_eq think_close_eq)
  from assms have "A \<noteq> []" by (auto simp: strip_def)
  with assms feed_inside [of "[]" Bs A]
  show "generate \<lparr>chunks = A # think_open # Bs, failure = None\<rparr> = [Data A False, Data [] True]"
    by (simp add: generate_def initial_state_def process_chunk_def scan_outside_plain open_only)
  from assms
  show "generate \<lparr>chunks = [A @ think_open @ concat Bs], failure = None\<rparr> =
      [Data A False, Data [] True]"
    by (simp add: generate_def initial_state_def process_chunk_def scan_unterminated)
qed

theorem unterminated_block_witness:
  "generate \<lparr>chunks = [ascii ''A'', think_open, ascii ''B''], failure = None\<rparr> =
     [Data (ascii ''A'') False, Data [] True] \<and>
   generate \<lparr>chunks = [ascii ''A'' @ think_open @ ascii ''B''], failure = None\<rparr> =
     [Data (ascii ''A'') False, Data [] True]"
proof -
  have "strip (ascii ''A'') \<noteq> []" by (simp add: strip_def isspace_def)
  moreover have "\<not> contains think_open (ascii ''A'')" by (simp add: contains_def think_open_eq)
  moreover have "\<not> contains think_close (concat [ascii ''B''])"
    by (simp add: contains_def think_close_eq)
  ultimately have "generate \<lparr>chunks = ascii ''A'' # think_open # [ascii ''B''], failure = None\<rparr> =
           [Data (ascii ''A'') False, Data [] True] \<and>
         generate \<lparr>chunks = [ascii ''A'' @ think_open @ concat [ascii ''B'']], failure = None\<rparr> =
           [Data (ascii ''A'') False, Data [] True]"
    by (rule unterminated_block)
  then show ?thesis by simp
qed


text \<open>
  The segmenter itself never raises: wherever the loop unpacks a split into two names,
  the marker is in the text. So every chunk sequence is consumed to its end and only a
  failure of the backend's stream can lead to the error event.
\<close>

theorem segmenter_never_raises:
  "\<exists>yielded st'. feed st cs = (yielded, Inr st')"
  by (rule feed_returns)

text \<open>
  A complete reasoning block inside one chunk is removed: of \<open>A <think> B </think> C\<close>
  the fragments \<open>A\<close> and \<open>C\<close> are emitted, followed by the \<open>done = true\<close> event.
\<close>

theorem reasoning_block_suppressed:
  assumes "strip A \<noteq> []" and "strip C \<noteq> []"
    and "\<not> contains think_open A" and "\<not> contains think_close B" and "\<not> contains think_open C"
  shows "generate \<lparr>chunks = [A @ think_open @ B @ think_close @ C], failure = None\<rparr> =
           [Data A False, Data C False, Data [] True]"
proof -
  from assms(2) have "C \<noteq> []" by (auto simp: strip_def)
  with assms show ?thesis
    by (simp add: generate_def initial_state_def process_chunk_def scan_block)
qed

theorem reasoning_block_suppressed_witness:
  "generate \<lparr>chunks = [ascii ''A'' @ think_open @ ascii ''B'' @ think_close @ ascii ''C''],
             failure = None\<rparr> =
     [Data (ascii ''A'') False, Data (ascii ''C'') False, Data [] True]"
  by (rule reasoning_block_suppressed)
    (simp_all add: strip_eq_Nil isspace_def contains_def think_open_eq think_close_eq)

text \<open>
  Inside a reasoning block everything is buffered, so a closing marker that is split
  between two chunks is still recognised (an opening marker that is split is not, see
  claim C2).
\<close>

theorem closing_marker_may_split:
  assumes "strip A \<noteq> []" and "strip C \<noteq> []"
    and "\<not> contains think_open A" and "\<not> contains think_close B" and "\<not> contains think_open C"
    and "X @ Y = B @ think_close @ C" and "\<not> contains think_close X"
  shows "generate \<lparr>chunks = [A @ think_open @ X, Y], failure = None\<rparr> =
           [Data A False, Data C False, Data [] True]"
proof -
  from assms(1,2) have ne: "A \<noteq> []" "C \<noteq> []" by (auto simp: strip_def)
  have first: "scan False (A @ think_open @ X) [] = Inr (True, [], X, [A])"
    using assms(1,3,7) by (simp add: scan_unterminated)
  have "scan True (X @ Y) [] = Inr (False, C, [], [])"
    unfolding assms(6) using assms(4,5)
    by (subst scan.simps)
      (simp add: contains_close_first split1_close_first scan_outside_plain)
  with first ne assms(1,2) show ?thesis
    by (simp add: generate_def initial_state_def process_chunk_def)
qed

theorem closing_marker_may_split_witness:
  "generate \<lparr>chunks = [ascii ''A<think>B</th'', ascii ''ink>C''], failure = None\<rparr> =
     [Data (ascii ''A'') False, Data (ascii ''C'') False, Data [] True]"
proof -
  have "generate \<lparr>chunks = [ascii ''A'' @ think_open @ ascii ''B</th'', ascii ''ink>C''],
                  failure = None\<rparr> =
      [Data (ascii ''A'') False, Data (ascii ''C'') False, Data [] True]"
    by (rule closing_marker_may_split [where B = "ascii ''B''"])
      (simp_all add: strip_eq_Nil isspace_def contains_def think_open_eq think_close_eq)
  then show ?thesis by (simp add: think_open_eq)
qed

section \<open>Properties of the bot-chat stream\<close>

lemma bot_drain_shape:
  "bot_drain cs f =
     map BotData (filter (\<lambda>chunk. chunk \<noteq> []) cs) @
     (case f of None \<Rightarrow> [BotDone] | Some e \<Rightarrow> [BotData error_message, BotDone])"
  by (induction cs) (simp_all split: option.splits)

lemma bot_contents_data: "bot_contents (map BotData ps @ evs) = ps @ bot_contents evs"
  by (induction ps) simp_all

lemma concat_nonempty: "concat (filter (\<lambda>chunk. chunk \<noteq> []) cs) = concat cs"
  by (induction cs) simp_all

lemma filter_done_data: "filter (\<lambda>ev. ev = BotDone) (map BotData ps) = []"
  by (induction ps) simp_all

subsection \<open>Claim C7: reasoning content passes through\<close>

text \<open>
  Claim C7: in the streaming bot-chat variant, for every split into chunks of a stream
  \<open>A <think> B </think> C\<close>, the content events carry \<open>A\<close>, \<open>B\<close> and \<open>C\<close> in their
  order, nothing is dropped (the markers are kept too), and the response ends with
  exactly one \<open>[DONE]\<close> sentinel, also when the stream raises; in that case the chunks
  delivered so far are followed by the apology as one more content event.
\<close>

theorem bot_passthrough:
  assumes "concat cs = A @ think_open @ B @ think_close @ C"
  shows "concat (bot_contents (bot_generate \<lparr>chunks = cs, failure = None\<rparr>)) =
           A @ think_open @ B @ think_close @ C \<and>
         bot_contents (bot_generate \<lparr>chunks = cs, failure = Some e\<rparr>) =
           filter (\<lambda>chunk. chunk \<noteq> []) cs @ [error_message] \<and>
         last (bot_generate \<lparr>chunks = cs, failure = f\<rparr>) = BotDone \<and>
         filter (\<lambda>ev. ev = BotDone) (bot_generate \<lparr>chunks = cs, failure = f\<rparr>) = [BotDone]"
  using assms
  by (simp add: bot_generate_def bot_drain_shape bot_contents_data concat_nonempty
      filter_done_data split: option.splits)

theorem bot_passthrough_witness:
  "concat (bot_contents
     (bot_generate \<lparr>chunks = [ascii ''A<th'', ascii ''ink>B</think>C''], failure = None\<rparr>)) =
     ascii ''A<think>B</think>C'' \<and>
   last (bot_generate \<lparr>chunks = [ascii ''A<th'', ascii ''ink>B</think>C''],
           failure = Some (BackendError (ascii ''boom''))\<rparr>) = BotDone"
proof -
  have "concat [ascii ''A<th'', ascii ''ink>B</think>C''] =
      ascii ''A'' @ think_open @ ascii ''B'' @ think_close @ ascii ''C''"
    by (simp add: think_open_eq think_close_eq)
  from bot_passthrough [OF this, of "BackendError (ascii ''boom'')" "Some (BackendError (ascii ''boom''))"]
    bot_passthrough [OF this, of "BackendError (ascii ''boom'')" None]
  show ?thesis by (simp add: think_open_eq think_close_eq)
qed

section \<open>Properties of knowledge retrieval\<close>

lemma similarity_of_range: "0 \<le> similarity_of d \<and> similarity_of d \<le> 1"
  by (simp add: similarity_of_def)

lemma sort_by_similarity_sorted:
  "sorted_wrt (\<lambda>a b. doc_similarity b \<le> doc_similarity a) (sort_by_similarity docs)"
proof -
  have "sorted (map (\<lambda>doc. - doc_similarity doc) (sort_by_similarity docs))"
    by (simp add: sort_by_similarity_def)
  then show ?thesis
    by (simp add: sorted_map)
qed

lemma sort_by_similarity_stable:
  "filter (\<lambda>doc. doc_similarity doc = k) (sort_by_similarity docs) =
   filter (\<lambda>doc. doc_similarity doc = k) docs"
  using sort_key_stable [of "\<lambda>doc. - doc_similarity doc" "- k" docs]
  by (simp add: sort_by_similarity_def)

lemma sort_by_similarity_mset: "mset (sort_by_similarity docs) = mset docs"
  by (simp add: sort_by_similarity_def)

lemma sort3:
  assumes "doc_similarity a = 0.9" "doc_similarity b = 0.5" "doc_similarity c = 0.8"
  shows "sort_by_similarity [a, b, c] = [a, c, b]"
  using assms by (simp add: sort_by_similarity_def)

lemma format_similarity:
  "doc_similarity (format_result r) =
     similarity_of (case r_distance r of None \<Rightarrow> 1 | Some d \<Rightarrow> d)"
  by (simp add: format_result_def Let_def)

lemma format_id: "doc_id (format_result r) = r_id r"
  by (simp add: format_result_def Let_def)

lemma three_results:
  "search_knowledge (\<lambda>texts. Inr [[0]])
     (\<lambda>v top_k filter_metadata. Inr
        [\<lparr>r_id = ascii ''a'', r_content = ascii ''x'', r_metadata = None, r_distance = Some 0.1\<rparr>,
         \<lparr>r_id = ascii ''b'', r_content = ascii ''y'', r_metadata = None, r_distance = Some 0.5\<rparr>,
         \<lparr>r_id = ascii ''c'', r_content = ascii ''z'', r_metadata = None, r_distance = Some (- 0.2)\<rparr>])
     (ascii ''q'') 3 None =
   [format_result \<lparr>r_id = ascii ''a'', r_content = ascii ''x'', r_metadata = None, r_distance = Some 0.1\<rparr>,
    format_result \<lparr>r_id = ascii ''c'', r_content = ascii ''z'', r_metadata = None, r_distance = Some (- 0.2)\<rparr>,
    format_result \<lparr>r_id = ascii ''b'', r_content = ascii ''y'', r_metadata = None, r_distance = Some 0.5\<rparr>]"
proof -
  have "sort_by_similarity
      [format_result \<lparr>r_id = ascii ''a'', r_content = ascii ''x'', r_metadata = None, r_distance = Some 0.1\<rparr>,
       format_result \<lparr>r_id = ascii ''b'', r_content = ascii ''y'', r_metadata = None, r_distance = Some 0.5\<rparr>,
       format_result \<lparr>r_id = ascii ''c'', r_content = ascii ''z'', r_metadata = None, r_distance = Some (- 0.2)\<rparr>] =
      [format_result \<lparr>r_id = ascii ''a'', r_content = ascii ''x'', r_metadata = None, r_distance = Some 0.1\<rparr>,
       format_result \<lparr>r_id = ascii ''c'', r_content = ascii ''z'', r_metadata = None, r_distance = Some (- 0.2)\<rparr>,
       format_result \<lparr>r_id = ascii ''b'', r_content = ascii ''y'', r_metadata = None, r_distance = Some 0.5\<rparr>]"
    by (rule sort3) (simp_all add: format_similarity similarity_of_def)
  then show ?thesis
    by (simp add: search_knowledge_def strip_eq_Nil isspace_def)
qed

subsection \<open>Claim C4: similarities and their order\<close>

text \<open>
  Claim C4 says that the distances 0.1, 0.5 and -0.2 give the similarities 0.9, 0.5 and
  1.0 and the order: the -0.2 document, the 0.1 document, the 0.5 document. The code
  treats a negative distance by a branch of its own, \<open>max(0.0, 1 + distance)\<close>, so
  the similarities are 0.9, 0.5 and 0.8 and the order is: the 0.1 document, the -0.2
  document, the 0.5 document. The rest of the claim holds for all inputs: every
  similarity is in [0, 1], the result is ordered by descending similarity, documents
  of equal similarity keep the order of the store, and no document is lost or added.
\<close>

theorem search_knowledge_similarity_order:
  assumes "strip query \<noteq> []"
    and "embed_call [query] = Inr (v # vs)"
    and "store_call v top_k (metadata_filter category) = Inr [r1, r2, r3]"
    and "r_distance r1 = Some 0.1" and "r_distance r2 = Some 0.5" and "r_distance r3 = Some (- 0.2)"
  shows "map doc_similarity [format_result r1, format_result r2, format_result r3] =
           [0.9, 0.5, 0.8] \<and>
         search_knowledge embed_call store_call query top_k category =
           [format_result r1, format_result r3, format_result r2] \<and>
         0 \<le> similarity_of d \<and> similarity_of d \<le> 1 \<and>
         sorted_wrt (\<lambda>a b. doc_similarity b \<le> doc_similarity a) (sort_by_similarity docs) \<and>
         filter (\<lambda>doc. doc_similarity doc = k) (sort_by_similarity docs) =
           filter (\<lambda>doc. doc_similarity doc = k) docs \<and>
         mset (sort_by_similarity docs) = mset docs"
proof -
  have s: "doc_similarity (format_result r1) = 0.9" "doc_similarity (format_result r2) = 0.5"
    "doc_similarity (format_result r3) = 0.8"
    using assms(4-6) by (simp_all add: format_similarity similarity_of_def)
  from assms(1-3) sort3 [OF s]
  have "search_knowledge embed_call store_call query top_k category =
      [format_result r1, format_result r3, format_result r2]"
    by (simp add: search_knowledge_def)
  with s similarity_of_range [of d] sort_by_similarity_sorted [of docs]
    sort_by_similarity_stable [of k docs] sort_by_similarity_mset [of docs]
  show ?thesis by simp
qed

theorem search_knowledge_similarity_order_witness:
  "search_knowledge (\<lambda>texts. Inr [[0]])
     (\<lambda>v top_k filter_metadata. Inr
        [\<lparr>r_id = ascii ''a'', r_content = ascii ''x'', r_metadata = None, r_distance = Some 0.1\<rparr>,
         \<lparr>r_id = ascii ''b'', r_content = ascii ''y'', r_metadata = None, r_distance = Some 0.5\<rparr>,
         \<lparr>r_id = ascii ''c'', r_content = ascii ''z'', r_metadata = None, r_distance = Some (- 0.2)\<rparr>])
     (ascii ''q'') 3 None =
   [format_result \<lparr>r_id = ascii ''a'', r_content = ascii ''x'', r_metadata = None, r_distance = Some 0.1\<rparr>,
    format_result \<lparr>r_id = ascii ''c'', r_content = ascii ''z'', r_metadata = None, r_distance = Some (- 0.2)\<rparr>,
    format_result \<lparr>r_id = ascii ''b'', r_content = ascii ''y'', r_metadata = None, r_distance = Some 0.5\<rparr>]"
proof -
  have "strip (ascii ''q'') \<noteq> []" by (simp add: strip_eq_Nil isspace_def)
  from search_knowledge_similarity_order
    [where embed_call = "\<lambda>texts. Inr [[0]]" and v = "[0]" and vs = "[]" and top_k = 3
       and category = None
       and store_call = "\<lambda>v top_k filter_metadata. Inr
        [\<lparr>r_id = ascii ''a'', r_content = ascii ''x'', r_metadata = None, r_distance = Some 0.1\<rparr>,
         \<lparr>r_id = ascii ''b'', r_content = ascii ''y'', r_metadata = None, r_distance = Some 0.5\<rparr>,
         \<lparr>r_id = ascii ''c'', r_content = ascii ''z'', r_metadata = None, r_distance = Some (- 0.2)\<rparr>]",
     OF this]
  show ?thesis by simp
qed

text \<open>
  The claim as stated fails on its own three distances: the document of distance -0.2
  has similarity 0.8, not 1.0, and comes second.
\<close>

theorem negative_distance_ranks_second:
  "map doc_id
     (search_knowledge (\<lambda>texts. Inr [[0]])
        (\<lambda>v top_k filter_metadata. Inr
           [\<lparr>r_id = ascii ''a'', r_content = ascii ''x'', r_metadata = None, r_distance = Some 0.1\<rparr>,
            \<lparr>r_id = ascii ''b'', r_content = ascii ''y'', r_metadata = None, r_distance = Some 0.5\<rparr>,
            \<lparr>r_id = ascii ''c'', r_content = ascii ''z'', r_metadata = None, r_distance = Some (- 0.2)\<rparr>])
        (ascii ''q'') 3 None) = [ascii ''a'', ascii ''c'', ascii ''b''] \<and>
   map doc_similarity
     (search_knowledge (\<lambda>texts. Inr [[0]])
        (\<lambda>v top_k filter_metadata. Inr
           [\<lparr>r_id = ascii ''a'', r_content = ascii ''x'', r_metadata = None, r_distance = Some 0.1\<rparr>,
            \<lparr>r_id = ascii ''b'', r_content = ascii ''y'', r_metadata = None, r_distance = Some 0.5\<rparr>,
            \<lparr>r_id = ascii ''c'', r_content = ascii ''z'', r_metadata = None, r_distance = Some (- 0.2)\<rparr>])
        (ascii ''q'') 3 None) = [0.9, 0.8, 0.5] \<and>
   similarity_of (- 0.2) \<noteq> 1"
  unfolding three_results by (simp add: format_id format_similarity similarity_of_def)

section \<open>Properties of the chat endpoint\<close>

lemma search_knowledge_embed_fails:
  "embed_call [query] = Inl e \<or> embed_call [query] = Inr [] \<Longrightarrow>
   search_knowledge embed_call store_call query top_k category = []"
  by (auto simp: search_knowledge_def)

lemma knowledge_mode_no_docs:
  "fst (retrieve (message msg) 3 s) = [] \<Longrightarrow>
   knowledge_mode retrieve msg s =
     ((CustomerServicePrompt, message msg), snd (retrieve (message msg) 3 s))"
  by (cases "retrieve (message msg) 3 s") (simp add: knowledge_mode_def)

lemma knowledge_mode_state:
  "snd (knowledge_mode retrieve msg s) = snd (retrieve (message msg) 3 s)"
  by (simp add: knowledge_mode_def Let_def split: prod.splits)

lemma knowledge_mode_prompt:
  "fst (fst (knowledge_mode retrieve msg s)) = CustomerServicePrompt"
  by (simp add: knowledge_mode_def Let_def split: prod.splits)

lemma chat_stream_rule:
  "coding_rule msg = Some rule \<Longrightarrow> rule \<noteq> [] \<Longrightarrow>
   chat_stream retrieve backend msg s =
     (let req = \<lparr>req_messages = history_turns (history msg) @
                   [\<lparr>role = ascii ''user'', content = snd (rule_mode rule msg)\<rparr>],
                 req_system = fst (rule_mode rule msg), req_keep_alive = ascii ''10m''\<rparr>
      in (\<lparr>request = req, events = generate (backend req)\<rparr>, s))"
  by (simp add: chat_stream_def Let_def split: prod.splits)

lemma chat_stream_knowledge:
  "coding_rule msg = None \<or> coding_rule msg = Some [] \<Longrightarrow>
   chat_stream retrieve backend msg s =
     (let req = \<lparr>req_messages = history_turns (history msg) @
                   [\<lparr>role = ascii ''user'', content = snd (fst (knowledge_mode retrieve msg s))\<rparr>],
                 req_system = fst (fst (knowledge_mode retrieve msg s)),
                 req_keep_alive = ascii ''10m''\<rparr>
      in (\<lparr>request = req, events = generate (backend req)\<rparr>,
          snd (knowledge_mode retrieve msg s)))"
  by (auto simp: chat_stream_def Let_def split: prod.splits)

subsection \<open>Claim C5: retrieval degrades to an empty context\<close>

text \<open>
  Claim C5: if the embedding call of \<open>search_knowledge\<close> raises or returns no vector,
  \<open>search_knowledge\<close> returns the empty list instead of raising, and the chat request
  goes on: in the mode that retrieves (no coding rule, or the empty one), the user
  content sent to the backend is the raw message alone, without a context block, and
  the response is the stream generated from the backend's answer to that request. The
  retriever of the endpoint is \<open>search_knowledge\<close> with that embedding call, recording
  its calls; the statement holds whatever calls were made before.
\<close>

theorem retrieval_degradation:
  assumes "embed_call [message msg] = Inl e \<or> embed_call [message msg] = Inr []"
  shows "search_knowledge embed_call store_call (message msg) top_k category = [] \<and>
         (coding_rule msg = None \<or> coding_rule msg = Some [] \<longrightarrow>
            request (fst (chat_stream
                (recording (\<lambda>query k. search_knowledge embed_call store_call query k None))
                backend msg calls)) =
              \<lparr>req_messages = history_turns (history msg) @
                                [\<lparr>role = ascii ''user'', content = message msg\<rparr>],
               req_system = CustomerServicePrompt,
               req_keep_alive = ascii ''10m''\<rparr> \<and>
            events (fst (chat_stream
                (recording (\<lambda>query k. search_knowledge embed_call store_call query k None))
                backend msg calls)) =
              generate (backend
                \<lparr>req_messages = history_turns (history msg) @
                                  [\<lparr>role = ascii ''user'', content = message msg\<rparr>],
                 req_system = CustomerServicePrompt,
                 req_keep_alive = ascii ''10m''\<rparr>))"
proof -
  let ?r = "recording (\<lambda>query k. search_knowledge embed_call store_call query k None)"
  have none: "search_knowledge embed_call store_call (message msg) k c = []" for k c
    using assms by (rule search_knowledge_embed_fails)
  then have "fst (?r (message msg) 3 calls) = []"
    by (simp add: recording_def)
  then have "knowledge_mode ?r msg calls =
      ((CustomerServicePrompt, message msg), snd (?r (message msg) 3 calls))"
    by (rule knowledge_mode_no_docs)
  with none show ?thesis
    by (auto simp: chat_stream_knowledge Let_def)
qed

theorem retrieval_degradation_witness:
  "search_knowledge (\<lambda>texts. Inl (BackendError (ascii ''down''))) (\<lambda>v k f. Inr [])
     (ascii ''hi'') 3 None = [] \<and>
   request (fst (chat_stream
      (recording (\<lambda>query k. search_knowledge (\<lambda>texts. Inl (BackendError (ascii ''down'')))
                    (\<lambda>v k f. Inr []) query k None))
      (\<lambda>req. \<lparr>chunks = [], failure = None\<rparr>)
      \<lparr>message = ascii ''hi'', conversation_id = None, history = None, session_id = None,
         coding_rule = None\<rparr> [])) =
     \<lparr>req_messages = [\<lparr>role = ascii ''user'', content = ascii ''hi''\<rparr>],
      req_system = CustomerServicePrompt, req_keep_alive = ascii ''10m''\<rparr>"
  using retrieval_degradation
    [where embed_call = "\<lambda>texts. Inl (BackendError (ascii ''down''))"
       and e = "BackendError (ascii ''down'')" and store_call = "\<lambda>v k f. Inr []" and top_k = 3
       and category = None and backend = "\<lambda>req. \<lparr>chunks = [], failure = None\<rparr>"
       and calls = "[]"
       and msg = "\<lparr>message = ascii ''hi'', conversation_id = None, history = None,
                    session_id = None, coding_rule = None\<rparr>"]
  by (simp add: history_turns_def)

subsection \<open>Claim C8: retrieval by mode\<close>

text \<open>
  Claim C8 says that a request carrying a coding rule never invokes retrieval and that
  a request without one invokes it exactly once with \<open>top_k = 3\<close>. The endpoint tests
  the truth value of the rule, so the first half holds for a rule that is not empty:
  then the state of every retriever is left as it was, a recording retriever has
  recorded no call, the system prompt is the code-review template filled from the six
  fields of the rule, and the outcome does not depend on the retriever at all. A
  request without a rule, and also a request with the empty rule \<open>{}\<close>, leaves every
  retriever in the state that one call for the message with \<open>top_k = 3\<close> returns: a
  recording retriever has recorded exactly that one call after the calls made before;
  the system prompt is the customer-service prompt.
\<close>

theorem retrieval_by_mode:
  "(coding_rule msg = Some rule \<and> rule \<noteq> [] \<longrightarrow>
      snd (chat_stream (recording search) backend msg calls) = calls \<and>
      snd (chat_stream retrieve backend msg s) = s \<and>
      fst (chat_stream retrieve backend msg s) = fst (chat_stream retrieve' backend msg s') \<and>
      req_system (request (fst (chat_stream retrieve backend msg s))) =
        CodeReviewPrompt
          (dict_get rule (ascii ''title'') (ascii ''N/A''))
          (dict_get rule (ascii ''description'') (ascii ''N/A''))
          (dict_get rule (ascii ''language'') (ascii ''N/A''))
          (dict_get rule (ascii ''category'') (ascii ''N/A''))
          (dict_get rule (ascii ''content'') (ascii ''N/A''))
          (dict_get rule (ascii ''example'') (ascii ''N/A''))) \<and>
   (coding_rule msg = None \<or> coding_rule msg = Some [] \<longrightarrow>
      snd (chat_stream (recording search) backend msg calls) = calls @ [(message msg, 3)] \<and>
      snd (chat_stream retrieve backend msg s) = snd (retrieve (message msg) 3 s) \<and>
      req_system (request (fst (chat_stream retrieve backend msg s))) = CustomerServicePrompt)"
proof (intro conjI impI)
  assume r: "coding_rule msg = Some rule \<and> rule \<noteq> []"
  then show "snd (chat_stream (recording search) backend msg calls) = calls"
    by (simp add: chat_stream_rule Let_def)
  from r show "snd (chat_stream retrieve backend msg s) = s"
    by (simp add: chat_stream_rule Let_def)
  from r show "fst (chat_stream retrieve backend msg s) = fst (chat_stream retrieve' backend msg s')"
    by (simp add: chat_stream_rule Let_def)
  from r show "req_system (request (fst (chat_stream retrieve backend msg s))) =
        CodeReviewPrompt
          (dict_get rule (ascii ''title'') (ascii ''N/A''))
          (dict_get rule (ascii ''description'') (ascii ''N/A''))
          (dict_get rule (ascii ''language'') (ascii ''N/A''))
          (dict_get rule (ascii ''category'') (ascii ''N/A''))
          (dict_get rule (ascii ''content'') (ascii ''N/A''))
          (dict_get rule (ascii ''example'') (ascii ''N/A''))"
    by (simp add: chat_stream_rule Let_def rule_mode_def)
next
  assume k: "coding_rule msg = None \<or> coding_rule msg = Some []"
  then show "snd (chat_stream (recording search) backend msg calls) = calls @ [(message msg, 3)]"
    by (simp add: chat_stream_knowledge Let_def knowledge_mode_state recording_def)
  from k show "snd (chat_stream retrieve backend msg s) = snd (retrieve (message msg) 3 s)"
    by (simp add: chat_stream_knowledge Let_def knowledge_mode_state)
  from k show "req_system (request (fst (chat_stream retrieve backend msg s))) =
      CustomerServicePrompt"
    by (simp add: chat_stream_knowledge Let_def knowledge_mode_prompt)
qed

theorem retrieval_by_mode_witness:
  "snd (chat_stream (recording (\<lambda>query k. [])) (\<lambda>req. \<lparr>chunks = [], failure = None\<rparr>)
      \<lparr>message = ascii ''x = 1'', conversation_id = None, history = None, session_id = None,
         coding_rule = Some [(ascii ''title'', ascii ''Naming'')]\<rparr> []) = [] \<and>
   snd (chat_stream (recording (\<lambda>query k. [])) (\<lambda>req. \<lparr>chunks = [], failure = None\<rparr>)
      \<lparr>message = ascii ''hi'', conversation_id = None, history = None, session_id = None,
         coding_rule = None\<rparr> []) = [(ascii ''hi'', 3)]"
proof -
  have "snd (chat_stream (recording (\<lambda>query k. [])) (\<lambda>req. \<lparr>chunks = [], failure = None\<rparr>)
      \<lparr>message = ascii ''x = 1'', conversation_id = None, history = None, session_id = None,
         coding_rule = Some [(ascii ''title'', ascii ''Naming'')]\<rparr> []) = []"
    using retrieval_by_mode
      [where msg = "\<lparr>message = ascii ''x = 1'', conversation_id = None, history = None,
                      session_id = None,
                      coding_rule = Some [(ascii ''title'', ascii ''Naming'')]\<rparr>"
         and rule = "[(ascii ''title'', ascii ''Naming'')]" and search = "\<lambda>query k. []"
         and backend = "\<lambda>req. \<lparr>chunks = [], failure = None\<rparr>" and calls = "[]"
         and retrieve = "recording (\<lambda>query k. [])" and s = "[]"
         and retrieve' = "recording (\<lambda>query k. [])" and s' = "[]"]
    by simp
  moreover
  have "snd (chat_stream (recording (\<lambda>query k. [])) (\<lambda>req. \<lparr>chunks = [], failure = None\<rparr>)
      \<lparr>message = ascii ''hi'', conversation_id = None, history = None, session_id = None,
         coding_rule = None\<rparr> []) = [(ascii ''hi'', 3)]"
    using retrieval_by_mode
      [where msg = "\<lparr>message = ascii ''hi'', conversation_id = None, history = None,
                      session_id = None, coding_rule = None\<rparr>"
         and search = "\<lambda>query k. []"
         and backend = "\<lambda>req. \<lparr>chunks = [], failure = None\<rparr>" and calls = "[]"
         and retrieve = "recording (\<lambda>query k. [])" and s = "[]"
         and retrieve' = "recording (\<lambda>query k. [])" and s' = "[]"]
    by simp
  ultimately show ?thesis by simp
qed

text \<open>
  The claim as stated fails for a request that carries the empty rule \<open>{}\<close>: the
  retriever, which had recorded no call, has recorded one.
\<close>

theorem empty_rule_retrieves:
  "coding_rule \<lparr>message = ascii ''hi'', conversation_id = None, history = None,
                 session_id = None, coding_rule = Some []\<rparr> \<noteq> None \<and>
   snd (chat_stream (recording (\<lambda>query k. [])) (\<lambda>req. \<lparr>chunks = [], failure = None\<rparr>)
        \<lparr>message = ascii ''hi'', conversation_id = None, history = None, session_id = None,
           coding_rule = Some []\<rparr> []) = [(ascii ''hi'', 3)]"
  by (simp add: chat_stream_knowledge Let_def knowledge_mode_state recording_def)

section \<open>Properties of the embedding adapter\<close>

lemma legacy_loop_length:
  "legacy_loop post k ts acc = Some embeddings \<Longrightarrow> length embeddings = length acc + length ts"
proof (induction ts arbitrary: k acc)
  case Nil
  then show ?case by simp
next
  case (Cons t ts)
  then show ?case
    by (auto split: http_outcome.splits legacy_body.splits option.splits if_splits)
qed

lemma length_zero_vectors: "length (zero_vectors n) = n"
  by (simp add: zero_vectors_def)

lemma get_embeddings_legacy_length:
  "length (get_embeddings_legacy post ts) = length ts"
  by (auto simp: get_embeddings_legacy_def length_zero_vectors split: option.splits
      dest: legacy_loop_length)

lemma legacy_unreachable:
  "ts \<noteq> [] \<Longrightarrow> post 0 (hd ts) = Raised \<Longrightarrow>
   get_embeddings_legacy post ts = zero_vectors (length ts)"
  by (cases ts) (simp_all add: get_embeddings_legacy_def)

lemma get_embeddings_legacy_nonempty: "ts \<noteq> [] \<Longrightarrow> get_embeddings_legacy post ts \<noteq> []"
  using get_embeddings_legacy_length [of post ts] by auto

lemma zero_vectors_nonempty: "ts \<noteq> [] \<Longrightarrow> zero_vectors (length ts) \<noteq> []"
  by (simp add: zero_vectors_def)

text \<open>
  The legacy loop: a call that raises, or a 200 answer whose body cannot be read, ends
  the loop with an exception; otherwise the loop appends one vector per text.
\<close>

lemma legacy_loop_fails:
  "i < length ts \<Longrightarrow>
   post (k + i) (ts ! i) = Raised \<or> post (k + i) (ts ! i) = Response 200 LegacyMalformed \<Longrightarrow>
   legacy_loop post k ts acc = None"
proof (induction ts arbitrary: k acc i)
  case Nil
  then show ?case by simp
next
  case (Cons t ts)
  show ?case
  proof (cases i)
    case 0
    with Cons.prems show ?thesis by auto
  next
    case (Suc j)
    with Cons.prems have "j < length ts"
      and "post (Suc k + j) (ts ! j) = Raised \<or>
           post (Suc k + j) (ts ! j) = Response 200 LegacyMalformed"
      by simp_all
    then have "legacy_loop post (Suc k) ts acc' = None" for acc'
      by (rule Cons.IH)
    then show ?thesis
      by (simp split: http_outcome.splits legacy_body.splits option.splits)
  qed
qed

lemma legacy_loop_succeeds:
  "(\<And>i. i < length ts \<Longrightarrow>
      post (k + i) (ts ! i) \<noteq> Raised \<and> post (k + i) (ts ! i) \<noteq> Response 200 LegacyMalformed) \<Longrightarrow>
   \<exists>es. legacy_loop post k ts acc = Some es"
proof (induction ts arbitrary: k acc)
  case Nil
  show ?case by simp
next
  case (Cons t ts)
  from Cons.prems [of 0] have head: "post k t \<noteq> Raised" "post k t \<noteq> Response 200 LegacyMalformed"
    by simp_all
  have "\<exists>es. legacy_loop post (Suc k) ts acc' = Some es" for acc'
  proof (rule Cons.IH)
    fix i
    assume "i < length ts"
    with Cons.prems [of "Suc i"]
    show "post (Suc k + i) (ts ! i) \<noteq> Raised \<and>
          post (Suc k + i) (ts ! i) \<noteq> Response 200 LegacyMalformed"
      by simp
  qed
  with head show ?case
    by (auto split: http_outcome.splits legacy_body.splits option.splits)
qed

lemma legacy_loop_prefix:
  "legacy_loop post k ts acc = Some es \<Longrightarrow> take (length acc) es = acc"
proof (induction ts arbitrary: k acc)
  case Nil
  then show ?case by simp
next
  case (Cons t ts)
  from Cons.prems obtain x where "legacy_loop post (Suc k) ts (acc @ [x]) = Some es"
    by (auto split: http_outcome.splits legacy_body.splits option.splits if_splits)
  from Cons.IH [OF this] have "take (length acc) (take (length (acc @ [x])) es) = take (length acc) (acc @ [x])"
    by simp
  then show ?case by (simp add: min_def)
qed

lemma legacy_loop_entry:
  "legacy_loop post k ts acc = Some es \<Longrightarrow> i < length ts \<Longrightarrow>
   post (k + i) (ts ! i) = Response c b \<Longrightarrow>
   es ! (length acc + i) =
     (if c \<noteq> 200 then replicate 768 0
      else case b of LegacyJson (Some v) \<Rightarrow> v | _ \<Rightarrow> replicate 768 0)"
proof (induction ts arbitrary: k acc i)
  case Nil
  then show ?case by simp
next
  case (Cons t ts)
  show ?case
  proof (cases i)
    case 0
    with Cons.prems(3) have head: "post k t = Response c b" by simp
    let ?x = "if c \<noteq> 200 then replicate 768 0
      else case b of LegacyJson (Some v) \<Rightarrow> v | _ \<Rightarrow> replicate 768 (0::real)"
    from Cons.prems(1) head have "legacy_loop post (Suc k) ts (acc @ [?x]) = Some es"
      by (auto split: legacy_body.splits option.splits if_splits)
    from legacy_loop_prefix [OF this] have "take (Suc (length acc)) es = acc @ [?x]"
      by simp
    then have "take (Suc (length acc)) es ! length acc = ?x"
      by simp
    with 0 show ?thesis by simp
  next
    case (Suc j)
    from Cons.prems(1) obtain x where rec: "legacy_loop post (Suc k) ts (acc @ [x]) = Some es"
      by (auto split: http_outcome.splits legacy_body.splits option.splits if_splits)
    from Suc Cons.prems(2,3) have "j < length ts" "post (Suc k + j) (ts ! j) = Response c b"
      by simp_all
    from Cons.IH [OF rec this] Suc show ?thesis by simp
  qed
qed

lemma get_embeddings_legacy_fails:
  assumes "i < length ts"
    and "post i (ts ! i) = Raised \<or> post i (ts ! i) = Response 200 LegacyMalformed"
  shows "get_embeddings_legacy post ts = replicate (length ts) (replicate 768 0)"
  using legacy_loop_fails [of i ts post 0 "[]"] assms
  by (simp add: get_embeddings_legacy_def zero_vectors_def)

lemma get_embeddings_legacy_entry:
  assumes "\<And>i. i < length ts \<Longrightarrow>
      post i (ts ! i) \<noteq> Raised \<and> post i (ts ! i) \<noteq> Response 200 LegacyMalformed"
    and "i < length ts" and "post i (ts ! i) = Response c b"
  shows "get_embeddings_legacy post ts ! i =
     (if c \<noteq> 200 then replicate 768 0
      else case b of LegacyJson (Some v) \<Rightarrow> v | _ \<Rightarrow> replicate 768 0)"
proof -
  from assms(1) obtain es where es: "legacy_loop post 0 ts [] = Some es"
    using legacy_loop_succeeds [of ts post 0 "[]"] by auto
  from legacy_loop_entry [OF es assms(2), of c b] assms(3) es show ?thesis
    by (simp add: get_embeddings_legacy_def)
qed

subsection \<open>Claim C10: the adapter always answers\<close>

text \<open>
  Claim C10 says that for a non-empty list of texts \<open>get_embeddings\<close> never raises and
  returns exactly one vector per text. The adapter is total and its result is never
  empty, but a non-empty \<open>embeddings\<close> list of a 200 answer of the primary endpoint is
  returned as it is, whatever its length. So: the result is not empty; it is the
  primary endpoint's list when that answers 200 with a non-empty list; in every other
  case it has exactly one vector per text. A 200 answer of the primary endpoint with
  no or an empty \<open>embeddings\<close> list gives one zero vector of dimension 768 per text.
  When the primary call raises, answers with another status or with a body that cannot
  be read, the result is that of the legacy endpoint, asked once per text in order: if
  one of these calls raises or its 200 answer cannot be read, the result is one zero
  vector of dimension 768 per text; otherwise the vector of a text is the embedding of
  its 200 answer, and the zero vector of dimension 768 when the status is not 200 or
  the answer has no embedding. Bodies are typed: an \<open>embeddings\<close> entry is a list of
  vectors or absent.
\<close>

theorem get_embeddings_total:
  assumes "ts \<noteq> []"
  shows "get_embeddings embed_call post (Many ts) \<noteq> [] \<and>
         (\<forall>es. embed_call ts = Response 200 (EmbedJson (Some es)) \<and> es \<noteq> [] \<longrightarrow>
            get_embeddings embed_call post (Many ts) = es) \<and>
         ((\<forall>es. embed_call ts = Response 200 (EmbedJson (Some es)) \<longrightarrow> es = []) \<longrightarrow>
            length (get_embeddings embed_call post (Many ts)) = length ts) \<and>
         (embed_call ts = Response 200 (EmbedJson None) \<or>
          embed_call ts = Response 200 (EmbedJson (Some [])) \<longrightarrow>
            get_embeddings embed_call post (Many ts) = replicate (length ts) (replicate 768 0)) \<and>
         (embed_call ts = Raised \<or>
          (\<exists>status_code body. embed_call ts = Response status_code body \<and>
             (status_code \<noteq> 200 \<or> body = Malformed)) \<longrightarrow>
            get_embeddings embed_call post (Many ts) = get_embeddings_legacy post ts) \<and>
         ((\<exists>k<length ts. post k (ts ! k) = Raised \<or> post k (ts ! k) = Response 200 LegacyMalformed) \<longrightarrow>
            get_embeddings_legacy post ts = replicate (length ts) (replicate 768 0)) \<and>
         ((\<forall>k<length ts. post k (ts ! k) \<noteq> Raised \<and> post k (ts ! k) \<noteq> Response 200 LegacyMalformed) \<longrightarrow>
            (\<forall>k<length ts. \<forall>status_code body. post k (ts ! k) = Response status_code body \<longrightarrow>
               get_embeddings_legacy post ts ! k =
                 (if status_code \<noteq> 200 then replicate 768 0
                  else case body of LegacyJson (Some v) \<Rightarrow> v | _ \<Rightarrow> replicate 768 0))) \<and>
         (embed_call ts = Raised \<and> post 0 (hd ts) = Raised \<longrightarrow>
            get_embeddings embed_call post (Many ts) = replicate (length ts) (replicate 768 0))"
proof (intro conjI allI impI)
  show "get_embeddings embed_call post (Many ts) \<noteq> []"
    using assms
    by (simp add: get_embeddings_def Let_def get_embeddings_legacy_nonempty zero_vectors_nonempty
        split: http_outcome.splits embed_body.splits option.splits)
next
  fix es
  assume "embed_call ts = Response 200 (EmbedJson (Some es)) \<and> es \<noteq> []"
  then show "get_embeddings embed_call post (Many ts) = es"
    by (simp add: get_embeddings_def)
next
  assume "\<forall>es. embed_call ts = Response 200 (EmbedJson (Some es)) \<longrightarrow> es = []"
  then show "length (get_embeddings embed_call post (Many ts)) = length ts"
    by (auto simp: get_embeddings_def Let_def get_embeddings_legacy_length length_zero_vectors
        split: http_outcome.splits embed_body.splits option.splits)
next
  assume "embed_call ts = Response 200 (EmbedJson None) \<or>
          embed_call ts = Response 200 (EmbedJson (Some []))"
  then show "get_embeddings embed_call post (Many ts) = replicate (length ts) (replicate 768 0)"
    by (auto simp: get_embeddings_def zero_vectors_def)
next
  assume "embed_call ts = Raised \<or>
          (\<exists>status_code body. embed_call ts = Response status_code body \<and>
             (status_code \<noteq> 200 \<or> body = Malformed))"
  then show "get_embeddings embed_call post (Many ts) = get_embeddings_legacy post ts"
    by (auto simp: get_embeddings_def)
next
  assume "\<exists>k<length ts. post k (ts ! k) = Raised \<or> post k (ts ! k) = Response 200 LegacyMalformed"
  then show "get_embeddings_legacy post ts = replicate (length ts) (replicate 768 0)"
    using get_embeddings_legacy_fails by blast
next
  fix k status_code body
  assume "\<forall>k<length ts. post k (ts ! k) \<noteq> Raised \<and> post k (ts ! k) \<noteq> Response 200 LegacyMalformed"
    and "k < length ts" and "post k (ts ! k) = Response status_code body"
  then show "get_embeddings_legacy post ts ! k =
      (if status_code \<noteq> 200 then replicate 768 0
       else case body of LegacyJson (Some v) \<Rightarrow> v | _ \<Rightarrow> replicate 768 0)"
    using get_embeddings_legacy_entry [of ts post k status_code body] by blast
next
  assume "embed_call ts = Raised \<and> post 0 (hd ts) = Raised"
  with assms show "get_embeddings embed_call post (Many ts) = replicate (length ts) (replicate 768 0)"
    by (simp add: get_embeddings_def legacy_unreachable zero_vectors_def)
qed

theorem get_embeddings_total_witness:
  "get_embeddings (\<lambda>texts. Raised) (\<lambda>k t. Raised) (Many [ascii ''a'', ascii ''b'']) =
     [replicate 768 0, replicate 768 0] \<and>
   get_embeddings (\<lambda>texts. Response 500 Malformed)
     (\<lambda>k t. if k = 0 then Response 404 (LegacyJson None) else Response 200 (LegacyJson (Some [1])))
     (Many [ascii ''a'', ascii ''b'']) = [replicate 768 0, [1]]"
proof -
  have "[ascii ''a'', ascii ''b''] \<noteq> []" by simp
  from get_embeddings_total [OF this, of "\<lambda>texts. Raised" "\<lambda>k t. Raised"]
  have "get_embeddings (\<lambda>texts. Raised) (\<lambda>k t. Raised) (Many [ascii ''a'', ascii ''b'']) =
      replicate (length [ascii ''a'', ascii ''b'']) (replicate 768 0)"
    by blast
  moreover
  have "get_embeddings (\<lambda>texts. Response 500 Malformed)
     (\<lambda>k t. if k = 0 then Response 404 (LegacyJson None) else Response 200 (LegacyJson (Some [1])))
     (Many [ascii ''a'', ascii ''b'']) = [replicate 768 0, [1]]"
    by (simp add: get_embeddings_def get_embeddings_legacy_def)
  ultimately show ?thesis by simp
qed

text \<open>
  The claim as stated fails when the primary endpoint answers two texts with one
  vector: that list is returned.
\<close>

theorem primary_answer_not_counted:
  "get_embeddings (\<lambda>texts. Response 200 (EmbedJson (Some [[1]]))) (\<lambda>k t. Raised)
     (Many [ascii ''a'', ascii ''b'']) = [[1]] \<and>
   length (get_embeddings (\<lambda>texts. Response 200 (EmbedJson (Some [[1]]))) (\<lambda>k t. Raised)
     (Many [ascii ''a'', ascii ''b''])) \<noteq> length [ascii ''a'', ascii ''b'']"
  by (simp add: get_embeddings_def)

end
